theory Spec2Isabelle
  imports Main
begin

section \<open>Values and events\<close>

text \<open>
  Python text is modelled as \<open>string\<close>: a list of code points below 256.
  A dynamically typed value that ends up in an event is a \<open>pyval\<close>.
  A pydantic model instance is the ordered list of its declared fields with
  their values, which is what \<open>model_dump_json\<close> serialises.
\<close>

datatype pyval = PNone | PStr string | PInt int | PBool bool

type_synonym event = "(string \<times> pyval) list"

section \<open>The event bus (sse\_manager.py)\<close>

type_synonym game_code = string
type_synonym queue_id = nat

text \<open>
  What a subscriber queue holds: an SSE frame \<open>data: <json>\<close> followed by a blank
  line, represented by the event whose JSON it carries, or the shutdown signal
  (\<open>None\<close> in the source).
\<close>

datatype item = Frame event | ShutdownSignal

text \<open>
  \<open>connections\<close> is \<open>SSEManager._connections\<close> (a \<open>defaultdict(list)\<close>).
  The \<open>asyncio.Queue\<close> objects live in \<open>queue_store\<close>, addressed by identity;
  \<open>next_queue\<close> is the next unused identity.
\<close>

record sse_state =
  connections :: "game_code \<rightharpoonup> queue_id list"
  queue_store :: "queue_id \<rightharpoonup> item list"
  next_queue :: queue_id

definition sse_init :: sse_state where
  "sse_init = \<lparr>connections = Map.empty, queue_store = Map.empty, next_queue = 0\<rparr>"

datatype bus_error = ValueError

definition queue_put :: "sse_state \<Rightarrow> queue_id \<Rightarrow> item \<Rightarrow> sse_state" where
  "queue_put s q x =
     s\<lparr>queue_store := (queue_store s)
          (q \<mapsto> (case queue_store s q of None \<Rightarrow> [x] | Some xs \<Rightarrow> xs @ [x]))\<rparr>"

text \<open>
  The part of \<open>subscribe\<close> before its loop: a new queue is created and appended to
  the list of the code (the \<open>defaultdict\<close> creates the list when the code is new).
\<close>

definition subscribe_enter :: "sse_state \<Rightarrow> game_code \<Rightarrow> queue_id \<times> sse_state" where
  "subscribe_enter s code =
     (let q = next_queue s;
          qs = (case connections s code of None \<Rightarrow> [] | Some l \<Rightarrow> l)
      in (q, s\<lparr>connections := (connections s)(code \<mapsto> qs @ [q]),
               queue_store := (queue_store s)(q \<mapsto> []),
               next_queue := Suc q\<rparr>))"

text \<open>
  The \<open>finally\<close> block of \<open>subscribe\<close>: \<open>list.remove\<close> drops the first occurrence
  of the queue and raises \<open>ValueError\<close> when there is none; an emptied list is
  deleted from the dictionary.
\<close>

definition subscribe_finally :: "sse_state \<Rightarrow> game_code \<Rightarrow> queue_id \<Rightarrow> bus_error + sse_state" where
  "subscribe_finally s code q =
     (let qs = (case connections s code of None \<Rightarrow> [] | Some l \<Rightarrow> l)
      in if q \<notin> set qs then Inl ValueError
         else (let qs' = remove1 q qs
               in if qs' = [] then Inr (s\<lparr>connections := (connections s)(code := None)\<rparr>)
                  else Inr (s\<lparr>connections := (connections s)(code \<mapsto> qs')\<rparr>)))"

text \<open>
  One round of the loop of \<open>subscribe\<close>, for a queue that holds an item: the item
  is taken; the shutdown signal ends the stream through the \<open>finally\<close> block, any
  other item is yielded. On an empty queue \<open>queue.get()\<close> waits.
\<close>

datatype next_result = Yielded event | Ended | Waiting

definition subscribe_next ::
  "sse_state \<Rightarrow> game_code \<Rightarrow> queue_id \<Rightarrow> bus_error + (next_result \<times> sse_state)" where
  "subscribe_next s code q =
     (case queue_store s q of
        None \<Rightarrow> Inr (Waiting, s)
      | Some [] \<Rightarrow> Inr (Waiting, s)
      | Some (x # xs) \<Rightarrow>
          (let s1 = s\<lparr>queue_store := (queue_store s)(q \<mapsto> xs)\<rparr>
           in case x of
                ShutdownSignal \<Rightarrow>
                  (case subscribe_finally s1 code q of
                     Inl e \<Rightarrow> Inl e
                   | Inr s2 \<Rightarrow> Inr (Ended, s2))
              | Frame ev \<Rightarrow> Inr (Yielded ev, s1)))"

definition broadcast :: "sse_state \<Rightarrow> game_code \<Rightarrow> event \<Rightarrow> sse_state" where
  "broadcast s code ev =
     (case connections s code of
        None \<Rightarrow> s
      | Some qs \<Rightarrow> foldl (\<lambda>s' q. queue_put s' q (Frame ev)) s qs)"

definition close_game :: "sse_state \<Rightarrow> game_code \<Rightarrow> sse_state" where
  "close_game s code =
     (case connections s code of
        None \<Rightarrow> s
      | Some qs \<Rightarrow> foldl (\<lambda>s' q. queue_put s' q ShutdownSignal) s qs)"

definition get_subscriber_count :: "sse_state \<Rightarrow> game_code \<Rightarrow> nat" where
  "get_subscriber_count s code =
     length (case connections s code of None \<Rightarrow> [] | Some qs \<Rightarrow> qs)"

subsection \<open>The bus together with its running subscriber streams\<close>

text \<open>
  A running \<open>subscribe\<close> generator is its frame: the code it was called with and
  its queue. \<open>streams\<close> lists the generators that have entered and not yet left.
\<close>

record bus_system =
  bus :: sse_state
  streams :: "(game_code \<times> queue_id) list"

definition system_init :: bus_system where
  "system_init = \<lparr>bus = sse_init, streams = []\<rparr>"

datatype bus_op =
    Subscribe game_code
  | Next queue_id
  | Disconnect queue_id
  | Broadcast game_code event
  | CloseGame game_code

definition stream_code :: "bus_system \<Rightarrow> queue_id \<Rightarrow> game_code option" where
  "stream_code st q = map_of (map (\<lambda>(c, q'). (q', c)) (streams st)) q"

definition drop_stream :: "bus_system \<Rightarrow> queue_id \<Rightarrow> (game_code \<times> queue_id) list" where
  "drop_stream st q = filter (\<lambda>(c, q'). q' \<noteq> q) (streams st)"

text \<open>
  One event of the system. \<open>Next\<close> and \<open>Disconnect\<close> name a running stream by its
  queue; for a queue with no running stream nothing happens.
\<close>

fun bus_step :: "bus_system \<Rightarrow> bus_op \<Rightarrow> bus_error + bus_system" where
  "bus_step st (Subscribe code) =
     (let (q, s') = subscribe_enter (bus st) code
      in Inr (st\<lparr>bus := s', streams := streams st @ [(code, q)]\<rparr>))"
| "bus_step st (Next q) =
     (case stream_code st q of
        None \<Rightarrow> Inr st
      | Some code \<Rightarrow>
          (case subscribe_next (bus st) code q of
             Inl e \<Rightarrow> Inl e
           | Inr (Ended, s') \<Rightarrow> Inr (st\<lparr>bus := s', streams := drop_stream st q\<rparr>)
           | Inr (_, s') \<Rightarrow> Inr (st\<lparr>bus := s'\<rparr>)))"
| "bus_step st (Disconnect q) =
     (case stream_code st q of
        None \<Rightarrow> Inr st
      | Some code \<Rightarrow>
          (case subscribe_finally (bus st) code q of
             Inl e \<Rightarrow> Inl e
           | Inr s' \<Rightarrow> Inr (st\<lparr>bus := s', streams := drop_stream st q\<rparr>)))"
| "bus_step st (Broadcast code ev) = Inr (st\<lparr>bus := broadcast (bus st) code ev\<rparr>)"
| "bus_step st (CloseGame code) = Inr (st\<lparr>bus := close_game (bus st) code\<rparr>)"

fun bus_run :: "bus_system \<Rightarrow> bus_op list \<Rightarrow> bus_error + bus_system" where
  "bus_run st [] = Inr st"
| "bus_run st (x # xs) =
     (case bus_step st x of Inl e \<Rightarrow> Inl e | Inr st' \<Rightarrow> bus_run st' xs)"

definition attached :: "bus_system \<Rightarrow> game_code \<Rightarrow> queue_id list" where
  "attached st code = map snd (filter (\<lambda>(c, q). c = code) (streams st))"

text \<open>The invariant of the bus: the dictionary lists, per code, the queues of the
  running streams of that code, in the order they entered, and has no empty list.\<close>

definition bus_inv :: "bus_system \<Rightarrow> bool" where
  "bus_inv st \<longleftrightarrow>
     distinct (map snd (streams st)) \<and>
     (\<forall>(c, q) \<in> set (streams st). q < next_queue (bus st)) \<and>
     (\<forall>code. connections (bus st) code =
        (if attached st code = [] then None else Some (attached st code)))"

section \<open>Regular expressions as Python's \<open>re\<close> module matches them\<close>

text \<open>
  The patterns of the source are written in the abstract syntax below and matched as
  \<open>re\<close> does: the alternatives of a match are tried in order (a greedy repetition
  takes the longest run first, a lazy one the shortest), and \<open>match_from\<close> lists
  every way a pattern can match at a position in that order, so that its first
  element is the match a backtracking search finds. Repetition is needed over single
  characters only.
\<close>

text \<open>
  Character classes are lists of characters, so that membership is decided by
  comparing characters.
\<close>

definition one_of :: "string \<Rightarrow> char \<Rightarrow> bool" where
  "one_of cs c \<longleftrightarrow> c \<in> set cs"

definition digits :: string where
  "digits = ''0123456789''"

definition upper_letters :: string where
  "upper_letters = ''ABCDEFGHIJKLMNOPQRSTUVWXYZ''"

definition lower_letters :: string where
  "lower_letters = ''abcdefghijklmnopqrstuvwxyz''"

text \<open>
  \<open>\s\<close> on text, and what \<open>str.strip\<close> removes: the characters with \<open>isspace\<close>,
  which below 256 are the codes 9 to 13, 28 to 32, 133 and 160.
\<close>

definition is_space :: "char \<Rightarrow> bool" where
  "is_space c \<longleftrightarrow>
     c \<in> set [CHR 0x09, CHR 0x0A, CHR 0x0B, CHR 0x0C, CHR 0x0D, CHR 0x1C, CHR 0x1D, CHR 0x1E,
      CHR 0x1F, CHR 0x20, CHR 0x85, CHR 0xA0]"

text \<open>
  \<open>\w\<close> on text: the underscore and the characters with \<open>isalnum\<close>, which below
  256 are the digits, the letters, and the codes 170, 178, 179, 181, 185, 186, 188 to
  190, 192 to 214, 216 to 246 and 248 to 255.
\<close>

definition latin1_word_chars :: string where
  "latin1_word_chars =
     [CHR 0xAA, CHR 0xB2, CHR 0xB3, CHR 0xB5, CHR 0xB9, CHR 0xBA, CHR 0xBC, CHR 0xBD,
      CHR 0xBE, CHR 0xC0, CHR 0xC1, CHR 0xC2, CHR 0xC3, CHR 0xC4, CHR 0xC5, CHR 0xC6,
      CHR 0xC7, CHR 0xC8, CHR 0xC9, CHR 0xCA, CHR 0xCB, CHR 0xCC, CHR 0xCD, CHR 0xCE,
      CHR 0xCF, CHR 0xD0, CHR 0xD1, CHR 0xD2, CHR 0xD3, CHR 0xD4, CHR 0xD5, CHR 0xD6,
      CHR 0xD8, CHR 0xD9, CHR 0xDA, CHR 0xDB, CHR 0xDC, CHR 0xDD, CHR 0xDE, CHR 0xDF,
      CHR 0xE0, CHR 0xE1, CHR 0xE2, CHR 0xE3, CHR 0xE4, CHR 0xE5, CHR 0xE6, CHR 0xE7,
      CHR 0xE8, CHR 0xE9, CHR 0xEA, CHR 0xEB, CHR 0xEC, CHR 0xED, CHR 0xEE, CHR 0xEF,
      CHR 0xF0, CHR 0xF1, CHR 0xF2, CHR 0xF3, CHR 0xF4, CHR 0xF5, CHR 0xF6, CHR 0xF8,
      CHR 0xF9, CHR 0xFA, CHR 0xFB, CHR 0xFC, CHR 0xFD, CHR 0xFE, CHR 0xFF]"

definition is_word :: "char \<Rightarrow> bool" where
  "is_word c \<longleftrightarrow>
     c \<in> set digits \<or> c \<in> set upper_letters \<or> c \<in> set lower_letters \<or> c = CHR ''_'' \<or>
     c \<in> set latin1_word_chars"

definition newline :: char where
  "newline = CHR 0x0A"

text \<open>The dot without \<open>re.DOTALL\<close>, and with it.\<close>

definition dot :: "char \<Rightarrow> bool" where
  "dot c \<longleftrightarrow> c \<noteq> newline"

definition dot_all :: "char \<Rightarrow> bool" where
  "dot_all c \<longleftrightarrow> True"

definition lower :: "char \<Rightarrow> char" where
  "lower c = (case map_of (zip upper_letters lower_letters) c of None \<Rightarrow> c | Some l \<Rightarrow> l)"

text \<open>A literal character under \<open>re.IGNORECASE\<close>.\<close>

definition ci :: "char \<Rightarrow> char \<Rightarrow> bool" where
  "ci a c \<longleftrightarrow> lower c = lower a"

datatype rx =
    Atom "char \<Rightarrow> bool"
  | Eps
  | Seq rx rx
  | Alt rx rx
  | Star "char \<Rightarrow> bool"
  | Plus "char \<Rightarrow> bool"
  | LazyPlus "char \<Rightarrow> bool"
  | Group nat rx
  | EndAnchor
  | EndOfText
  | WordBoundary

text \<open>
  A position in the text: the character before it (none at the start), the text from
  it on, and the groups captured so far (the latest capture of a group first).
\<close>

type_synonym mstate = "char option \<times> string \<times> (nat \<times> string) list"

definition advance :: "mstate \<Rightarrow> nat \<Rightarrow> mstate" where
  "advance st n =
     (case st of (pv, s, cs) \<Rightarrow>
        (if n = 0 then pv else Some (s ! (n - 1)), drop n s, cs))"

definition run_length :: "(char \<Rightarrow> bool) \<Rightarrow> mstate \<Rightarrow> nat" where
  "run_length p st = (case st of (pv, s, cs) \<Rightarrow> length (takeWhile p s))"

definition at_word_boundary :: "mstate \<Rightarrow> bool" where
  "at_word_boundary st =
     (case st of (pv, s, cs) \<Rightarrow>
        (case pv of None \<Rightarrow> False | Some c \<Rightarrow> is_word c) \<noteq>
        (case s of [] \<Rightarrow> False | c # _ \<Rightarrow> is_word c))"

fun match_from :: "rx \<Rightarrow> mstate \<Rightarrow> mstate list" where
  "match_from (Atom p) st =
     (case st of (pv, s, cs) \<Rightarrow>
        (case s of [] \<Rightarrow> [] | c # t \<Rightarrow> if p c then [(Some c, t, cs)] else []))"
| "match_from Eps st = [st]"
| "match_from (Seq a b) st = concat (map (match_from b) (match_from a st))"
| "match_from (Alt a b) st = match_from a st @ match_from b st"
| "match_from (Star p) st = map (advance st) (rev [0 ..< Suc (run_length p st)])"
| "match_from (Plus p) st = map (advance st) (rev [1 ..< Suc (run_length p st)])"
| "match_from (LazyPlus p) st = map (advance st) [1 ..< Suc (run_length p st)]"
| "match_from (Group n r) st =
     map (\<lambda>(pv', s', cs'). (pv', s', (n, take (length (fst (snd st)) - length s') (fst (snd st))) # cs'))
       (match_from r st)"
| "match_from EndAnchor st =
     (case st of (pv, s, cs) \<Rightarrow> if s = [] \<or> s = [newline] then [st] else [])"
| "match_from EndOfText st =
     (case st of (pv, s, cs) \<Rightarrow> if s = [] then [st] else [])"
| "match_from WordBoundary st = (if at_word_boundary st then [st] else [])"

text \<open>\<open>r?\<close>, a sequence of patterns, and a literal string with and without \<open>re.IGNORECASE\<close>.\<close>

definition Opt :: "rx \<Rightarrow> rx" where
  "Opt r = Alt r Eps"

fun seqs :: "rx list \<Rightarrow> rx" where
  "seqs [] = Eps"
| "seqs (r # rs) = Seq r (seqs rs)"

fun lit :: "string \<Rightarrow> rx" where
  "lit [] = Eps"
| "lit (c # cs) = Seq (Atom (\<lambda>x. x = c)) (lit cs)"

fun lit_ci :: "string \<Rightarrow> rx" where
  "lit_ci [] = Eps"
| "lit_ci (c # cs) = Seq (Atom (ci c)) (lit_ci cs)"

text \<open>
  \<open>re.search\<close>: the first match at the leftmost position that has one. The result
  is the text after the match and the captured groups.
\<close>

fun search_from :: "rx \<Rightarrow> char option \<Rightarrow> string \<Rightarrow> (string \<times> (nat \<times> string) list) option" where
  "search_from r pv [] =
     (case match_from r (pv, [], []) of
        [] \<Rightarrow> None
      | (pv', s', cs) # _ \<Rightarrow> Some (s', cs))"
| "search_from r pv (c # t) =
     (case match_from r (pv, c # t, []) of
        [] \<Rightarrow> search_from r (Some c) t
      | (pv', s', cs) # _ \<Rightarrow> Some (s', cs))"

text \<open>\<open>re.match\<close>: whether the pattern matches at the start of the text.\<close>

definition re_match :: "rx \<Rightarrow> string \<Rightarrow> bool" where
  "re_match r text \<longleftrightarrow> match_from r (None, text, []) \<noteq> []"

definition re_search :: "rx \<Rightarrow> string \<Rightarrow> (nat \<times> string) list option" where
  "re_search r text = map_option snd (search_from r None text)"

text \<open>\<open>match.group(n)\<close> for a group that took part in the match.\<close>

definition group :: "(nat \<times> string) list \<Rightarrow> nat \<Rightarrow> string" where
  "group cs n = (case map_of cs n of None \<Rightarrow> [] | Some w \<Rightarrow> w)"

definition strip :: "string \<Rightarrow> string" where
  "strip s = rev (dropWhile is_space (rev (dropWhile is_space s)))"

section \<open>The response parser (backend/llm\_service.py)\<close>

definition VALID_EMOTIONS :: "string list" where
  "VALID_EMOTIONS =
     [''grandmaster_trance'', ''instant_regret'', ''smug_trap_setter'',
      ''bewildered_analyst'', ''stone_wall'', ''predator'', ''resigned_king'',
      ''impatient_speedster'', ''eureka_moment'']"

record ChessMoveResponse =
  move :: "string option"
  comment :: "string option"
  commentary :: "string option"
  my_emotion :: "string option"
  opponent_emotion :: "string option"

text \<open>The inner function of \<open>parse_chess_response\<close>; every pattern has one group.\<close>

definition extract_field :: "rx \<Rightarrow> string \<Rightarrow> string option" where
  "extract_field pattern text =
     (case re_search pattern text of
        None \<Rightarrow> None
      | Some cs \<Rightarrow> Some (strip (group cs 1)))"

text \<open>\<open>MOVE:\s*(.+?)(?:\n|$)\<close>\<close>

definition move_pattern :: rx where
  "move_pattern =
     seqs [lit_ci ''MOVE:'', Star is_space, Group 1 (LazyPlus dot),
           Alt (Atom (\<lambda>c. c = newline)) EndAnchor]"

text \<open>\<open>COMMENT:\s*(.+?)(?:\n(?:COMMENTARY|MY_EMOTION|OPPONENT_EMOTION):|$)\<close>\<close>

definition comment_pattern :: rx where
  "comment_pattern =
     seqs [lit_ci ''COMMENT:'', Star is_space, Group 1 (LazyPlus dot),
           Alt (seqs [Atom (\<lambda>c. c = newline),
                      Alt (lit_ci ''COMMENTARY'')
                        (Alt (lit_ci ''MY_EMOTION'') (lit_ci ''OPPONENT_EMOTION'')),
                      lit_ci '':''])
               EndAnchor]"

text \<open>\<open>COMMENTARY:\s*(.+?)(?:\n(?:MY_EMOTION|OPPONENT_EMOTION):|$)\<close>\<close>

definition commentary_pattern :: rx where
  "commentary_pattern =
     seqs [lit_ci ''COMMENTARY:'', Star is_space, Group 1 (LazyPlus dot),
           Alt (seqs [Atom (\<lambda>c. c = newline),
                      Alt (lit_ci ''MY_EMOTION'') (lit_ci ''OPPONENT_EMOTION''),
                      lit_ci '':''])
               EndAnchor]"

text \<open>\<open>MY_EMOTION:\s*(\S+)\<close> and \<open>OPPONENT_EMOTION:\s*(\S+)\<close>\<close>

definition my_emotion_pattern :: rx where
  "my_emotion_pattern =
     seqs [lit_ci ''MY_EMOTION:'', Star is_space, Group 1 (Plus (\<lambda>c. \<not> is_space c))]"

definition opponent_emotion_pattern :: rx where
  "opponent_emotion_pattern =
     seqs [lit_ci ''OPPONENT_EMOTION:'', Star is_space, Group 1 (Plus (\<lambda>c. \<not> is_space c))]"

text \<open>
  The check of an emotion: a non-empty value outside \<open>VALID_EMOTIONS\<close> becomes
  \<open>stone_wall\<close> (the source logs a warning there).
\<close>

definition validate_emotion :: "string option \<Rightarrow> string option" where
  "validate_emotion e =
     (case e of
        None \<Rightarrow> None
      | Some v \<Rightarrow> if v \<noteq> [] \<and> v \<notin> set VALID_EMOTIONS then Some ''stone_wall'' else Some v)"

definition parse_chess_response :: "string \<Rightarrow> ChessMoveResponse" where
  "parse_chess_response text =
     \<lparr>move = extract_field move_pattern text,
      comment = extract_field comment_pattern text,
      commentary = extract_field commentary_pattern text,
      my_emotion = validate_emotion (extract_field my_emotion_pattern text),
      opponent_emotion = validate_emotion (extract_field opponent_emotion_pattern text)\<rparr>"

subsection \<open>The earlier parser \<open>parse_llm_response\<close> (backend/game\_engine.py)\<close>

text \<open>\<open>MOVE:\s*([A-Za-z0-9\-+#=xO]+)\<close> under \<open>re.IGNORECASE\<close>\<close>

definition move_char :: "char \<Rightarrow> bool" where
  "move_char c \<longleftrightarrow>
     c \<in> set upper_letters \<or> c \<in> set lower_letters \<or> c \<in> set digits \<or>
     one_of ''-+#='' c"

definition llm_move_pattern :: rx where
  "llm_move_pattern =
     seqs [lit_ci ''MOVE:'', Star is_space, Group 1 (Plus move_char)]"

text \<open>\<open>COMMENT:\s*(.+?)(?:\n|$)\<close> under \<open>re.IGNORECASE | re.DOTALL\<close>\<close>

definition llm_comment_pattern :: rx where
  "llm_comment_pattern =
     seqs [lit_ci ''COMMENT:'', Star is_space, Group 1 (LazyPlus dot_all),
           Alt (Atom (\<lambda>c. c = newline)) EndAnchor]"

text \<open>
  \<open>\b([KQRBN]?[a-h]?[1-8]?x?[a-h][1-8](?:=[QRBN])?[+#]?|O-O(?:-O)?)\b\<close>
\<close>

definition potential_move_pattern :: rx where
  "potential_move_pattern =
     seqs [WordBoundary,
           Group 1
             (Alt (seqs [Opt (Atom (one_of ''KQRBN'')),
                         Opt (Atom (one_of ''abcdefgh'')),
                         Opt (Atom (one_of ''12345678'')),
                         Opt (Atom (\<lambda>c. c = CHR ''x'')),
                         Atom (one_of ''abcdefgh''),
                         Atom (one_of ''12345678''),
                         Opt (seqs [Atom (\<lambda>c. c = CHR ''=''), Atom (one_of ''QRBN'')]),
                         Opt (Atom (one_of ''+#''))])
                  (seqs [lit ''O-O'', Opt (lit ''-O'')])),
           WordBoundary]"

text \<open>
  \<open>re.findall\<close> for a pattern with one group: the group of each match, left to
  right, the search resuming where the previous match ended (one character further
  after an empty match). The first argument bounds the number of rounds;
  \<open>re_findall\<close> gives it one round per position of the text.
\<close>

fun findall_from :: "nat \<Rightarrow> rx \<Rightarrow> char option \<Rightarrow> string \<Rightarrow> string list" where
  "findall_from 0 r pv s = []"
| "findall_from (Suc n) r pv s =
     (case match_from r (pv, s, []) of
        (pv', s', cs) # _ \<Rightarrow>
          group cs 1 #
            (if length s' < length s then findall_from n r pv' s'
             else (case s of [] \<Rightarrow> [] | c # t \<Rightarrow> findall_from n r (Some c) t))
      | [] \<Rightarrow> (case s of [] \<Rightarrow> [] | c # t \<Rightarrow> findall_from n r (Some c) t))"

definition re_findall :: "rx \<Rightarrow> string \<Rightarrow> string list" where
  "re_findall r text = findall_from (Suc (length text)) r None text"

definition parse_llm_response :: "string \<Rightarrow> string option \<times> string option" where
  "parse_llm_response response_text =
     (let move0 = (case re_search llm_move_pattern response_text of
                     None \<Rightarrow> None
                   | Some cs \<Rightarrow> Some (strip (group cs 1)));
          comment0 = (case re_search llm_comment_pattern response_text of
                        None \<Rightarrow> None
                      | Some cs \<Rightarrow> Some (strip (group cs 1)));
          move1 = (if move0 = None \<or> move0 = Some []
                   then (case re_findall potential_move_pattern response_text of
                           [] \<Rightarrow> move0
                         | m # _ \<Rightarrow> Some m)
                   else move0)
      in (move1, comment0))"

text \<open>What a match of \<open>(\S+)\<close> leaves in group 1: a non-empty run of such characters.\<close>

definition captured :: "(char \<Rightarrow> bool) \<Rightarrow> mstate \<Rightarrow> bool" where
  "captured p st \<longleftrightarrow>
     (case st of (pv, s, cs) \<Rightarrow> group cs 1 \<noteq> [] \<and> (\<forall>c \<in> set (group cs 1). p c))"

section \<open>The oracle call (backend/llm\_service.py)\<close>

text \<open>Truth value of an optional text: \<open>None\<close> and the empty text are false.\<close>

definition truthy :: "string option \<Rightarrow> bool" where
  "truthy x = (case x of None \<Rightarrow> False | Some s \<Rightarrow> s \<noteq> [])"

text \<open>An optional text inside an f-string.\<close>

definition fmt :: "string option \<Rightarrow> string" where
  "fmt x = (case x of None \<Rightarrow> ''None'' | Some s \<Rightarrow> s)"

definition apostrophe :: char where
  "apostrophe = CHR 0x27"

definition dquote :: char where
  "dquote = CHR 0x22"

fun join :: "string \<Rightarrow> string list \<Rightarrow> string" where
  "join sep [] = []"
| "join sep [x] = x"
| "join sep (x # y # ys) = x @ sep @ join sep (y # ys)"

text \<open>
  \<open>llm_text\<close> is the field \<open>text\<close> of the source. It is a \<open>pyval\<close>: the source
  stores there whatever the member \<open>result\<close> of the JSON payload holds.
\<close>

record LLMResponse =
  llm_text :: pyval
  session_id :: "string option"
  error :: "string option"

text \<open>
  What the subprocess does is given from outside: it cannot be started, starting or
  reading it fails otherwise (with the message of the exception), or it exits with a
  return code, its output and its error output. \<open>json.loads\<close> is not modelled:
  with the output comes what \<open>json.loads\<close> makes of it: no JSON, a JSON value that
  is no object (with the message of the \<open>AttributeError\<close> that \<open>.get\<close> raises on it),
  or an object, of which the members \<open>result\<close> and \<open>session_id\<close> are given when
  present. A member \<open>session_id\<close> is taken to be a text or \<open>null\<close>.
\<close>

datatype json_reading =
    NotJson
  | NotAnObject string
  | Object "pyval option" "string option option"

datatype proc_result =
    ProcessNotFound
  | ProcessFailed string
  | Exited int string json_reading string

definition claude_command :: "string \<Rightarrow> string option \<Rightarrow> string option \<Rightarrow> string list" where
  "claude_command prompt sid system_prompt =
     [''claude'', ''-p'', prompt, ''--output-format'', ''json'', ''--model'', ''haiku''] @
     (if truthy sid then [''--resume'', fmt sid]
      else if truthy system_prompt then [''--system-prompt'', fmt system_prompt]
      else [])"

definition call_claude_cli ::
  "proc_result \<Rightarrow> string \<Rightarrow> string option \<Rightarrow> string option \<Rightarrow> LLMResponse" where
  "call_claude_cli outcome_of_process prompt sid system_prompt =
     (case outcome_of_process of
        ProcessNotFound \<Rightarrow>
          \<lparr>llm_text = PStr [], session_id = None,
           error = Some ''Claude CLI not found. Please install claude-code.''\<rparr>
      | ProcessFailed msg \<Rightarrow>
          \<lparr>llm_text = PStr [], session_id = sid,
           error = Some (''Error calling Claude CLI: '' @ msg)\<rparr>
      | Exited returncode out reading err \<Rightarrow>
          if returncode \<noteq> 0
          then \<lparr>llm_text = PStr [], session_id = sid,
                error = Some (if err \<noteq> [] then err else ''Unknown error'')\<rparr>
          else (case reading of
                  NotJson \<Rightarrow> \<lparr>llm_text = PStr out, session_id = sid, error = None\<rparr>
                | NotAnObject msg \<Rightarrow>
                    \<lparr>llm_text = PStr [], session_id = sid,
                     error = Some (''Error calling Claude CLI: '' @ msg)\<rparr>
                | Object res new_sid \<Rightarrow>
                    \<lparr>llm_text = (case res of None \<Rightarrow> PStr [] | Some v \<Rightarrow> v),
                     session_id = (case new_sid of None \<Rightarrow> sid | Some v \<Rightarrow> v),
                     error = None\<rparr>))"

definition emotion_options :: string where
  "emotion_options =
     ''grandmaster_trance, instant_regret, smug_trap_setter, bewildered_analyst, '' @
     ''stone_wall, predator, resigned_king, impatient_speedster, eureka_moment''"

definition build_chess_prompt ::
  "string \<Rightarrow> string option \<Rightarrow> string \<Rightarrow> string list \<Rightarrow> string" where
  "build_chess_prompt color_name user_strategy board_ascii legal_sans =
     join [newline]
       [''You are playing chess as '' @ color_name @ ''.'',
        ''Your strategy: '' @ fmt user_strategy,
        '''',
        ''Current board position:'',
        board_ascii,
        '''',
        ''Legal moves available: '' @ join '', '' legal_sans,
        '''',
        ''Respond with your move in this exact format:'',
        ''MOVE: <move in SAN notation like e4, Nf3, O-O>'',
        ''COMMENT: <your dramatic internal thoughts as the player, be expressive and in-character>'',
        ''COMMENTARY: <neutral sports announcer, 1-2 sentences, very dramatic like '' @ [dquote] @
          ''Wow! White sacrifices the queen! Unbelievable!'' @ [dquote] @
          '' - describe what happened without technical notation>'',
        ''MY_EMOTION: <one of: '' @ emotion_options @ ''>'',
        ''OPPONENT_EMOTION: <same options - your guess of how your opponent is feeling>'',
        '''',
        ''IMPORTANT: Your MOVE must be one of the legal moves listed above.'']"

definition build_system_prompt :: "string \<Rightarrow> string" where
  "build_system_prompt color_name =
     join [newline]
       [''You are a chess AI playing as '' @ color_name @
          ''. You will be given the current board state and asked to make moves.'',
        '''',
        ''Rules:'',
        ''1. Always respond with a legal move in SAN notation (e.g., e4, Nf3, Bxc6, O-O)'',
        ''2. Format your response as:'',
        ''   MOVE: <your move>'',
        ''   COMMENT: <your dramatic internal thoughts - be expressive!>'',
        ''   COMMENTARY: <neutral sports announcer style, 1-2 sentences, very dramatic>'',
        ''   MY_EMOTION: <one of the 9 emotion keys>'',
        ''   OPPONENT_EMOTION: <your guess of opponent'' @ [apostrophe] @ ''s emotion>'',
        ''3. Play according to the strategy provided by your player'',
        ''4. Be dramatic and entertaining in your comments!'',
        '''',
        ''Emotion options: '' @ emotion_options,
        '''',
        ''You will receive the board as ASCII art where:'',
        ''- Uppercase letters = White pieces (K=King, Q=Queen, R=Rook, B=Bishop, N=Knight, P=Pawn)'',
        ''- Lowercase letters = Black pieces'',
        ''- Dots (.) = Empty squares'']"

section \<open>The match loop (backend/game\_engine.py, backend/models.py, schemas.py)\<close>

datatype GameStatus = WAITING_FOR_PROMPTS | IN_PROGRESS | COMPLETED

datatype Color = WHITE | BLACK

definition color_value :: "Color \<Rightarrow> string" where
  "color_value c = (case c of WHITE \<Rightarrow> ''white'' | BLACK \<Rightarrow> ''black'')"

text \<open>The rows of the tables \<open>games\<close> and \<open>moves\<close>, without their timestamps.\<close>

record Game =
  game_code :: string
  status :: GameStatus
  white_prompt :: "string option"
  black_prompt :: "string option"
  white_session_id :: "string option"
  black_session_id :: "string option"
  board_fen :: string
  current_turn :: Color
  result :: "string option"
  is_paused :: bool

record Move =
  move_game_code :: string
  move_number :: int
  color :: Color
  move_uci :: string
  move_san :: string
  move_comment :: "string option"
  was_fallback :: bool

text \<open>
  The database as the session sees it: the rows of the games and the moves in the
  order they were added. \<open>find_game\<close> is the query of \<open>run_game\<close> for the game of
  a code, \<open>db_commit\<close> writes the loaded game object back to its row, and
  \<open>count_moves\<close> counts the moves of a code.
\<close>

record database =
  games :: "Game list"
  moves :: "Move list"

definition find_game :: "database \<Rightarrow> string \<Rightarrow> Game option" where
  "find_game db code = find (\<lambda>g. game_code g = code) (games db)"

definition db_commit :: "database \<Rightarrow> Game \<Rightarrow> database" where
  "db_commit db g =
     db\<lparr>games := map (\<lambda>g'. if game_code g' = game_code g then g else g') (games db)\<rparr>"

definition db_add :: "database \<Rightarrow> Move \<Rightarrow> database" where
  "db_add db m = db\<lparr>moves := moves db @ [m]\<rparr>"

definition count_moves :: "database \<Rightarrow> string \<Rightarrow> nat" where
  "count_moves db code = length (filter (\<lambda>m. move_game_code m = code) (moves db))"

subsection \<open>The rules engine\<close>

text \<open>
  The rules engine is the library \<open>chess\<close>, which is not part of the repository.
  Its operations are parameters of the model: a board of type \<open>'b\<close>, a move of type
  \<open>'m\<close>, and the operations the source calls. \<open>parse_san\<close> and \<open>parse_uci\<close> return a
  move or raise one of the library's three exceptions: \<open>InvalidMoveError\<close> for a text
  that is no notation, \<open>IllegalMoveError\<close> for a well-formed move that is not legal
  in the position, \<open>AmbiguousMoveError\<close> for a notation that fits several moves.
  \<open>outcome\<close> gives the winner (\<open>True\<close> for white, none for a draw) and the
  termination.
\<close>

datatype chess_error = InvalidMoveError | IllegalMoveError | AmbiguousMoveError

datatype Termination =
    CHECKMATE | STALEMATE | INSUFFICIENT_MATERIAL | SEVENTYFIVE_MOVES
  | FIVEFOLD_REPETITION | FIFTY_MOVES | THREEFOLD_REPETITION
  | VARIANT_WIN | VARIANT_LOSS | VARIANT_DRAW

record ('b, 'm) rules =
  from_fen :: "string \<Rightarrow> 'b"
  fen :: "'b \<Rightarrow> string"
  board_str :: "'b \<Rightarrow> string"
  turn :: "'b \<Rightarrow> bool"
  legal_moves :: "'b \<Rightarrow> 'm list"
  san :: "'b \<Rightarrow> 'm \<Rightarrow> string"
  uci :: "'m \<Rightarrow> string"
  push :: "'b \<Rightarrow> 'm \<Rightarrow> 'b"
  is_game_over :: "'b \<Rightarrow> bool"
  parse_san :: "'b \<Rightarrow> string \<Rightarrow> chess_error + 'm"
  parse_uci :: "'b \<Rightarrow> string \<Rightarrow> chess_error + 'm"
  outcome :: "'b \<Rightarrow> (bool option \<times> Termination) option"

datatype exn = ChessError chess_error | TypeError | IndexError | ValidationError

definition get_legal_moves_san :: "('b, 'm) rules \<Rightarrow> 'b \<Rightarrow> string list" where
  "get_legal_moves_san R b = map (san R b) (legal_moves R b)"

text \<open>
  \<open>validate_and_get_move\<close>: the first \<open>try\<close> catches \<open>InvalidMoveError\<close> and
  \<open>AmbiguousMoveError\<close>, the second \<open>InvalidMoveError\<close>; any other exception leaves
  the function.
\<close>

definition validate_and_get_move ::
  "('b, 'm) rules \<Rightarrow> 'b \<Rightarrow> string option \<Rightarrow> chess_error + 'm option" where
  "validate_and_get_move R b move_str =
     (if \<not> truthy move_str then Inr None
      else (case parse_san R b (fmt move_str) of
              Inr m \<Rightarrow> Inr (Some m)
            | Inl IllegalMoveError \<Rightarrow> Inl IllegalMoveError
            | Inl _ \<Rightarrow>
                (case parse_uci R b (fmt move_str) of
                   Inr m \<Rightarrow> Inr (Some m)
                 | Inl InvalidMoveError \<Rightarrow> Inr None
                 | Inl e \<Rightarrow> Inl e)))"

text \<open>
  \<open>random.choice\<close> on the list of legal moves: the number drawn is given from
  outside; an empty list raises \<open>IndexError\<close>.
\<close>

definition get_random_legal_move :: "('b, 'm) rules \<Rightarrow> 'b \<Rightarrow> nat \<Rightarrow> exn + 'm" where
  "get_random_legal_move R b r =
     (let ms = legal_moves R b
      in if ms = [] then Inl IndexError else Inr (ms ! (r mod length ms)))"

definition termination_name :: "Termination \<Rightarrow> string" where
  "termination_name t =
     (case t of
        CHECKMATE \<Rightarrow> ''checkmate''
      | STALEMATE \<Rightarrow> ''stalemate''
      | INSUFFICIENT_MATERIAL \<Rightarrow> ''insufficient_material''
      | SEVENTYFIVE_MOVES \<Rightarrow> ''seventyfive_moves''
      | FIVEFOLD_REPETITION \<Rightarrow> ''fivefold_repetition''
      | FIFTY_MOVES \<Rightarrow> ''fifty_moves''
      | THREEFOLD_REPETITION \<Rightarrow> ''threefold_repetition''
      | _ \<Rightarrow> ''unknown'')"

definition get_game_result :: "('b, 'm) rules \<Rightarrow> 'b \<Rightarrow> string \<times> string" where
  "get_game_result R b =
     (case outcome R b of
        None \<Rightarrow> (''unknown'', ''unknown'')
      | Some (winner, t) \<Rightarrow>
          ((case winner of
              None \<Rightarrow> ''draw''
            | Some w \<Rightarrow> if w then ''white_wins'' else ''black_wins''),
           termination_name t))"

subsection \<open>Events (schemas.py)\<close>

text \<open>
  Construction of a pydantic model from keyword arguments: each declared field takes
  the argument of its name, or its default; a required field without argument is a
  validation error (\<open>None\<close> here); arguments that name no declared field are
  ignored, as pydantic does when the model sets no \<open>extra\<close> policy.
\<close>

fun model_init :: "(string \<times> pyval option) list \<Rightarrow> (string \<times> pyval) list \<Rightarrow> event option" where
  "model_init [] kwargs = Some []"
| "model_init ((f, d) # fs) kwargs =
     (case (case map_of kwargs f of Some v \<Rightarrow> Some v | None \<Rightarrow> d) of
        None \<Rightarrow> None
      | Some v \<Rightarrow> map_option ((#) (f, v)) (model_init fs kwargs))"

definition MoveEvent_fields :: "(string \<times> pyval option) list" where
  "MoveEvent_fields =
     [(''type'', Some (PStr ''move'')), (''move_number'', None), (''color'', None),
      (''move_uci'', None), (''move_san'', None), (''comment'', None),
      (''was_fallback'', None), (''board_fen'', None), (''board_ascii'', None)]"

definition MoveEvent :: "(string \<times> pyval) list \<Rightarrow> event option" where
  "MoveEvent kwargs = model_init MoveEvent_fields kwargs"

definition GameOverEvent :: "(string \<times> pyval) list \<Rightarrow> event option" where
  "GameOverEvent kwargs =
     model_init [(''type'', Some (PStr ''game_over'')), (''result'', None), (''termination'', None)]
       kwargs"

definition GameStartedEvent :: "(string \<times> pyval) list \<Rightarrow> event option" where
  "GameStartedEvent kwargs = model_init [(''type'', Some (PStr ''game_started''))] kwargs"

definition opt_str :: "string option \<Rightarrow> pyval" where
  "opt_str x = (case x of None \<Rightarrow> PNone | Some s \<Rightarrow> PStr s)"

subsection \<open>One turn of \<open>run_game\<close>\<close>

text \<open>
  The variables of \<open>run_game\<close> that live across turns: the loaded game object, the
  board, \<open>move_number\<close> (here \<open>counter\<close>) and the database behind the session.
\<close>

record 'b loop_state =
  game :: Game
  board :: 'b
  counter :: int
  db :: database

text \<open>
  What the loop does to the outside, in order: a call of the oracle with its command
  line, a commit with the database it leaves, a broadcast to the code of the game.
\<close>

datatype action = Call "string list" | Commit database | Publish event

text \<open>
  What a turn takes from the outside: the subscriber count read at its start, what the
  oracle process does, the number \<open>random.choice\<close> draws, and what the audio hook
  returns.
\<close>

record turn_input =
  viewers :: nat
  proc :: proc_result
  pick :: nat
  audio :: "string option"

definition fallback_notice :: "string option \<Rightarrow> string" where
  "fallback_notice move_str =
     ''[FALLBACK - LLM suggested invalid move '' @ [apostrophe] @ fmt move_str @
     [apostrophe] @ '']''"

definition fallback_comment :: "string option \<Rightarrow> string option \<Rightarrow> string option" where
  "fallback_comment move_str c =
     (if truthy c then Some (fallback_notice move_str @ '' '' @ fmt c)
      else Some (fallback_notice move_str))"

text \<open>
  The oracle call of a turn and the update of the session id: the command line, the
  response, and the game object afterwards.
\<close>

definition ask_oracle ::
  "('b, 'm) rules \<Rightarrow> 'b loop_state \<Rightarrow> proc_result \<Rightarrow> string list \<times> LLMResponse \<times> Game" where
  "ask_oracle R st outcome_of_process =
     (let g = game st; b = board st;
          current_color = (if turn R b then WHITE else BLACK);
          is_white = (current_color = WHITE);
          user_strategy = (if is_white then white_prompt g else black_prompt g);
          sid = (if is_white then white_session_id g else black_session_id g);
          prompt = build_chess_prompt (color_value current_color) user_strategy
                     (board_str R b) (get_legal_moves_san R b);
          system_prompt = (if truthy sid then None
                           else Some (build_system_prompt (color_value current_color)));
          passed_sid = (if truthy sid then sid else None);
          llm_response = call_claude_cli outcome_of_process prompt passed_sid system_prompt;
          g1 = (if truthy (session_id llm_response)
                then (if is_white then g\<lparr>white_session_id := session_id llm_response\<rparr>
                      else g\<lparr>black_session_id := session_id llm_response\<rparr>)
                else g)
      in (claude_command prompt passed_sid system_prompt, llm_response, g1))"

text \<open>
  Validation of the parsed move and the fallback: the move to play, \<open>was_fallback\<close>
  and the comment.
\<close>

definition resolve_move ::
  "('b, 'm) rules \<Rightarrow> 'b \<Rightarrow> ChessMoveResponse \<Rightarrow> nat \<Rightarrow> exn + ('m \<times> bool \<times> string option)" where
  "resolve_move R b parsed r =
     (case validate_and_get_move R b (move parsed) of
        Inl e \<Rightarrow> Inl (ChessError e)
      | Inr (Some m) \<Rightarrow> Inr (m, False, comment parsed)
      | Inr None \<Rightarrow>
          (case get_random_legal_move R b r of
             Inl e \<Rightarrow> Inl e
           | Inr m \<Rightarrow> Inr (m, True, fallback_comment (move parsed) (comment parsed))))"

definition move_event_kwargs ::
  "int \<Rightarrow> Color \<Rightarrow> string \<Rightarrow> string \<Rightarrow> string option \<Rightarrow> bool \<Rightarrow> string \<Rightarrow> string \<Rightarrow>
   string option \<Rightarrow> string option \<Rightarrow> string option \<Rightarrow> string option \<Rightarrow> (string \<times> pyval) list" where
  "move_event_kwargs n c u s cm fb f a cy ca me oe =
     [(''move_number'', PInt n), (''color'', PStr (color_value c)), (''move_uci'', PStr u),
      (''move_san'', PStr s), (''comment'', opt_str cm), (''was_fallback'', PBool fb),
      (''board_fen'', PStr f), (''board_ascii'', PStr a), (''commentary'', opt_str cy),
      (''commentary_audio'', opt_str ca), (''my_emotion'', opt_str me),
      (''opponent_emotion'', opt_str oe)]"

text \<open>
  The rest of the turn once the move is known: the move is applied, the game and the
  new move record are committed, the audio hook is asked when there is commentary, the
  move event is built and broadcast, and the counter is raised after a move of black.
\<close>

definition apply_move ::
  "('b, 'm) rules \<Rightarrow> 'b loop_state \<Rightarrow> Game \<Rightarrow> ChessMoveResponse \<Rightarrow> turn_input \<Rightarrow>
   'm \<times> bool \<times> string option \<Rightarrow> action list \<times> (exn + 'b loop_state)" where
  "apply_move R st g1 parsed inp resolved =
     (case resolved of (m, fb, cm) \<Rightarrow>
        (let b = board st;
             current_color = (if turn R b then WHITE else BLACK);
             is_white = (current_color = WHITE);
             sn = san R b m;
             uc = uci R m;
             b' = push R b m;
             g2 = g1\<lparr>board_fen := fen R b',
                     current_turn := (if is_white then BLACK else WHITE)\<rparr>;
             db_move = \<lparr>move_game_code = game_code g2, move_number = counter st,
                        color = current_color, move_uci = uc, move_san = sn,
                        move_comment = cm, was_fallback = fb\<rparr>;
             db' = db_commit (db_add (db st) db_move) g2;
             commentary_audio = (if truthy (commentary parsed) then audio inp else None)
         in case MoveEvent (move_event_kwargs (counter st) current_color uc sn cm fb
                   (fen R b') (board_str R b') (commentary parsed) commentary_audio
                   (my_emotion parsed) (opponent_emotion parsed)) of
              None \<Rightarrow> ([Commit db'], Inl ValidationError)
            | Some ev \<Rightarrow>
                ([Commit db', Publish ev],
                 Inr \<lparr>game = g2, board = b',
                      counter = (if \<not> is_white then counter st + 1 else counter st),
                      db = db'\<rparr>)))"

definition play_turn ::
  "('b, 'm) rules \<Rightarrow> 'b loop_state \<Rightarrow> turn_input \<Rightarrow> action list \<times> (exn + 'b loop_state)" where
  "play_turn R st inp =
     (case ask_oracle R st (proc inp) of (cmd, llm_response, g1) \<Rightarrow>
        (case llm_text llm_response of
           PStr txt \<Rightarrow>
             (let parsed = parse_chess_response txt
              in case resolve_move R (board st) parsed (pick inp) of
                   Inl e \<Rightarrow> ([Call cmd], Inl e)
                 | Inr resolved \<Rightarrow>
                     (case apply_move R st g1 parsed inp resolved of
                        (acts, res) \<Rightarrow> (Call cmd # acts, res)))
         | _ \<Rightarrow> ([Call cmd], Inl TypeError)))"

subsection \<open>The loop\<close>

text \<open>
  How a run ends: the game is not in the database, no subscriber came within the wait,
  no subscriber was left at the start of a turn, the game is over, an exception left
  \<open>run_game\<close>, or the loop is still going when the given inputs are used up.
\<close>

datatype exit = NotFound | TimedOut | NoViewers | Completed | Crashed exn | StillRunning

definition finish_game ::
  "('b, 'm) rules \<Rightarrow> 'b loop_state \<Rightarrow> action list \<times> exit \<times> 'b loop_state" where
  "finish_game R st =
     (case get_game_result R (board st) of (res, termination) \<Rightarrow>
        (let g' = (game st)\<lparr>status := COMPLETED, result := Some res\<rparr>;
             db' = db_commit (db st) g';
             st' = st\<lparr>game := g', db := db'\<rparr>
         in case GameOverEvent [(''result'', PStr res), (''termination'', PStr termination)] of
              None \<Rightarrow> ([Commit db'], Crashed ValidationError, st')
            | Some ev \<Rightarrow> ([Commit db', Publish ev], Completed, st')))"

definition pause_game :: "'b loop_state \<Rightarrow> exit \<Rightarrow> action list \<times> exit \<times> 'b loop_state" where
  "pause_game st how =
     (let g' = (game st)\<lparr>is_paused := True\<rparr>;
          db' = db_commit (db st) g'
      in ([Commit db'], how, st\<lparr>game := g', db := db'\<rparr>))"

fun game_loop ::
  "('b, 'm) rules \<Rightarrow> 'b loop_state \<Rightarrow> turn_input list \<Rightarrow> action list \<times> exit \<times> 'b loop_state" where
  "game_loop R st [] =
     (if is_game_over R (board st) then finish_game R st else ([], StillRunning, st))"
| "game_loop R st (inp # inps) =
     (if is_game_over R (board st) then finish_game R st
      else if viewers inp = 0 then pause_game st NoViewers
      else (case play_turn R st inp of
              (acts, Inl e) \<Rightarrow> (acts, Crashed e, st)
            | (acts, Inr st') \<Rightarrow>
                (case game_loop R st' inps of
                   (acts', how, st'') \<Rightarrow> (acts @ acts', how, st''))))"

text \<open>
  The wait for a first subscriber: up to \<open>max_wait\<close> readings of the subscriber
  count, \<open>polls i\<close> being the count at reading \<open>i\<close>.
\<close>

definition max_wait :: nat where
  "max_wait = 100"

fun poll_loop :: "(nat \<Rightarrow> nat) \<Rightarrow> nat \<Rightarrow> nat \<Rightarrow> bool" where
  "poll_loop polls i 0 = False"
| "poll_loop polls i (Suc n) = (if 0 < polls i then True else poll_loop polls (Suc i) n)"

definition run_game ::
  "('b, 'm) rules \<Rightarrow> database \<Rightarrow> string \<Rightarrow> (nat \<Rightarrow> nat) \<Rightarrow> turn_input list \<Rightarrow>
   action list \<times> exit \<times> 'b loop_state option" where
  "run_game R db0 code polls inps =
     (case find_game db0 code of
        None \<Rightarrow> ([], NotFound, None)
      | Some g \<Rightarrow>
          (let b = from_fen R (board_fen g);
               g1 = g\<lparr>status := IN_PROGRESS, is_paused := False\<rparr>;
               db1 = db_commit db0 g1;
               existing_moves = count_moves db1 code;
               st = \<lparr>game = g1, board = b, counter = int existing_moves div 2 + 1, db = db1\<rparr>
           in case GameStartedEvent [] of
                None \<Rightarrow> ([], Crashed ValidationError, Some (st\<lparr>game := g, db := db0\<rparr>))
              | Some started \<Rightarrow>
                  (case (if poll_loop polls 0 max_wait then game_loop R st inps
                         else pause_game st TimedOut) of
                     (acts, how, st') \<Rightarrow>
                       (Publish started # Commit db1 # acts, how, Some st'))))"

text \<open>The parts of a run.\<close>

fun commits :: "action list \<Rightarrow> database list" where
  "commits [] = []"
| "commits (Commit d # as) = d # commits as"
| "commits (_ # as) = commits as"

fun published :: "action list \<Rightarrow> event list" where
  "published [] = []"
| "published (Publish e # as) = e # published as"
| "published (_ # as) = published as"

fun calls :: "action list \<Rightarrow> string list list" where
  "calls [] = []"
| "calls (Call c # as) = c # calls as"
| "calls (_ # as) = calls as"

subsection \<open>A scripted rules engine\<close>

text \<open>
  An instance of the rules engine for closed examples: the game 1. f3 e5 2. g4 Qh4
  mate. A board is the number of moves played; each position offers the move of the
  game as its only legal move, and the last position is checkmate by black. A text
  that has the shape of a move in algebraic notation (the library's pattern
  \<open>([NBKRQ])?([a-h])?([1-8])?[\-x]?([a-h][1-8])(=?[nbrqkNBRQK])?[\+#]?\<close>, matched
  to the end of the text) and is not the legal move is an illegal move; any other
  text is an invalid one. The same holds for coordinate notation.
\<close>

definition line_fens :: "string list" where
  "line_fens =
     [''rnbqkbnr/pppppppp/8/8/8/8/PPPPPPPP/RNBQKBNR w KQkq - 0 1'',
      ''rnbqkbnr/pppppppp/8/8/8/5P2/PPPPP1PP/RNBQKBNR b KQkq - 0 1'',
      ''rnbqkbnr/pppp1ppp/8/4p3/8/5P2/PPPPP1PP/RNBQKBNR w KQkq - 0 2'',
      ''rnbqkbnr/pppp1ppp/8/4p3/6P1/5P2/PPPPP2P/RNBQKBNR b KQkq - 0 2'',
      ''rnb1kbnr/pppp1ppp/8/4p3/6Pq/5P2/PPPPP2P/RNBQKBNR w KQkq - 1 3'']"

definition line_moves :: "(string \<times> string) list" where
  "line_moves = [(''f2f3'', ''f3''), (''e7e5'', ''e5''), (''g2g4'', ''g4''), (''d8h4'', ''Qh4#'')]"

definition san_regex :: rx where
  "san_regex =
     seqs [Opt (Atom (one_of ''NBKRQ'')),
           Opt (Atom (one_of ''abcdefgh'')),
           Opt (Atom (one_of ''12345678'')),
           Opt (Atom (one_of ''-x'')),
           Atom (one_of ''abcdefgh''),
           Atom (one_of ''12345678''),
           Opt (seqs [Opt (Atom (\<lambda>c. c = CHR ''='')), Atom (one_of ''nbrqkNBRQK'')]),
           Opt (Atom (one_of ''+#'')),
           EndOfText]"

definition uci_regex :: rx where
  "uci_regex =
     seqs [Atom (one_of ''abcdefgh''), Atom (one_of ''12345678''),
           Atom (one_of ''abcdefgh''), Atom (one_of ''12345678''),
           Opt (Atom (one_of ''pnbrqk'')), EndOfText]"

fun rank_squares :: "string \<Rightarrow> string" where
  "rank_squares [] = []"
| "rank_squares (c # cs) =
     (case map_of (zip ''12345678'' [1, 2, 3, 4, 5, 6, 7, 8]) c of
        Some n \<Rightarrow> replicate n CHR ''.''
      | None \<Rightarrow> [c]) @
     rank_squares cs"

fun split_on :: "char \<Rightarrow> string \<Rightarrow> string list" where
  "split_on d [] = [[]]"
| "split_on d (c # cs) =
     (if c = d then [] # split_on d cs
      else (case split_on d cs of [] \<Rightarrow> [[c]] | w # ws \<Rightarrow> (c # w) # ws))"

text \<open>The board diagram of a position, from the piece placement of its notation.\<close>

definition fen_diagram :: "string \<Rightarrow> string" where
  "fen_diagram f =
     join [newline]
       (map (\<lambda>r. join '' '' (map (\<lambda>c. [c]) (rank_squares r)))
          (split_on CHR ''/'' (takeWhile (\<lambda>c. c \<noteq> CHR '' '') f)))"

definition line_fen :: "nat \<Rightarrow> string" where
  "line_fen b = line_fens ! min b 4"

fun index_of :: "'a \<Rightarrow> 'a list \<Rightarrow> nat" where
  "index_of x [] = 0"
| "index_of x (y # ys) = (if x = y then 0 else Suc (index_of x ys))"

definition line_rules :: "(nat, string) rules" where
  "line_rules =
     \<lparr>from_fen = (\<lambda>f. if f \<in> set line_fens then index_of f line_fens else 0),
      fen = line_fen,
      board_str = (\<lambda>b. fen_diagram (line_fen b)),
      turn = (\<lambda>b. even b),
      legal_moves = (\<lambda>b. if b < 4 then [fst (line_moves ! b)] else []),
      san = (\<lambda>b m. if b < 4 \<and> m = fst (line_moves ! b) then snd (line_moves ! b) else ''--''),
      uci = (\<lambda>m. m),
      push = (\<lambda>b m. Suc b),
      is_game_over = (\<lambda>b. 4 \<le> b),
      parse_san = (\<lambda>b s. if b < 4 \<and> s = snd (line_moves ! b) then Inr (fst (line_moves ! b))
                          else if re_match san_regex s then Inl IllegalMoveError
                          else Inl InvalidMoveError),
      parse_uci = (\<lambda>b s. if b < 4 \<and> s = fst (line_moves ! b) then Inr s
                          else if re_match uci_regex s then Inl IllegalMoveError
                          else Inl InvalidMoveError),
      outcome = (\<lambda>b. if 4 \<le> b then Some (Some False, CHECKMATE) else None)\<rparr>"

text \<open>A new game with both prompts given, alone in the database.\<close>

definition new_game :: Game where
  "new_game =
     \<lparr>game_code = ''ABC123'', status = WAITING_FOR_PROMPTS,
      white_prompt = Some ''Attack'', black_prompt = Some ''Defend'',
      white_session_id = None, black_session_id = None,
      board_fen = ''rnbqkbnr/pppppppp/8/8/8/8/PPPPPPPP/RNBQKBNR w KQkq - 0 1'',
      current_turn = WHITE, result = None, is_paused = False\<rparr>"

definition new_db :: database where
  "new_db = \<lparr>games = [new_game], moves = []\<rparr>"

text \<open>An oracle that answers with the given text under the given session id.\<close>

definition answers :: "string \<Rightarrow> string \<Rightarrow> proc_result" where
  "answers txt sid = Exited 0 [] (Object (Some (PStr txt)) (Some (Some sid))) []"

definition turn_with :: "proc_result \<Rightarrow> turn_input" where
  "turn_with p = \<lparr>viewers = 1, proc = p, pick = 0, audio = None\<rparr>"

text \<open>Readings of the subscriber count during the wait: always one, always none.\<close>

definition one_viewer :: "nat \<Rightarrow> nat" where
  "one_viewer i = 1"

definition no_viewer :: "nat \<Rightarrow> nat" where
  "no_viewer i = 0"

text \<open>The session id stored for white in the game of a database.\<close>

definition white_sid_in :: "database \<Rightarrow> string option option" where
  "white_sid_in d = map_option white_session_id (find_game d ''ABC123'')"

text \<open>
  A database in which the game was paused after white's first move, black to move,
  beside a move of another game.
\<close>

definition resumed_game :: Game where
  "resumed_game =
     new_game\<lparr>status := IN_PROGRESS,
       board_fen := ''rnbqkbnr/pppppppp/8/8/8/5P2/PPPPP1PP/RNBQKBNR b KQkq - 0 1'',
       current_turn := BLACK, is_paused := True\<rparr>"

definition resumed_db :: database where
  "resumed_db =
     \<lparr>games = [resumed_game],
      moves = [\<lparr>move_game_code = ''ZZZ999'', move_number = 7, color = WHITE,
                move_uci = ''e2e4'', move_san = ''e4'', move_comment = None,
                was_fallback = False\<rparr>,
               \<lparr>move_game_code = ''ABC123'', move_number = 1, color = WHITE,
                move_uci = ''f2f3'', move_san = ''f3'', move_comment = None,
                was_fallback = False\<rparr>]\<rparr>"

text \<open>An answer with all five labelled fields.\<close>

definition full_answer :: string where
  "full_answer =
     join [newline]
       [''MOVE: f3'', ''COMMENT: I strike!'', ''COMMENTARY: Wow.'',
        ''MY_EMOTION: predator'', ''OPPONENT_EMOTION: stone_wall'']"

section \<open>Notions used by the properties\<close>

text \<open>
  The numbering of the moves of a game: the move at position \<open>n\<close> of the game
  (counted from 0) has number \<open>n div 2 + 1\<close> and is white's when \<open>n\<close> is even.
  \<open>numbered code n0 ms\<close> says that \<open>ms\<close> are moves of the game \<open>code\<close> numbered so
  from position \<open>n0\<close> on.
\<close>

definition numbered :: "string \<Rightarrow> nat \<Rightarrow> Move list \<Rightarrow> bool" where
  "numbered code n0 ms \<longleftrightarrow>
     map (\<lambda>m. (move_game_code m, move_number m, color m)) ms =
     map (\<lambda>i. (code, int ((n0 + i) div 2) + 1, if even (n0 + i) then WHITE else BLACK))
       [0 ..< length ms]"

text \<open>The session id stored for a side (\<open>True\<close> for white).\<close>

definition stored_sid :: "Game \<Rightarrow> bool \<Rightarrow> string option" where
  "stored_sid g w = (if w then white_session_id g else black_session_id g)"

text \<open>
  The outcomes of the oracle process after which \<open>call_claude_cli\<close> returns an empty
  text: the process cannot be started, running or reading it raises, it exits with a
  return code other than 0, or its output is JSON but no object.
\<close>

definition oracle_failed :: "proc_result \<Rightarrow> bool" where
  "oracle_failed p =
     (case p of
        ProcessNotFound \<Rightarrow> True
      | ProcessFailed msg \<Rightarrow> True
      | Exited returncode out reading err \<Rightarrow>
          returncode \<noteq> 0 \<or> (case reading of NotAnObject msg \<Rightarrow> True | _ \<Rightarrow> False))"

text \<open>The state of the loop of a new game at its first turn.\<close>

definition first_turn :: "nat loop_state" where
  "first_turn = \<lparr>game = new_game, board = 0, counter = 1, db = new_db\<rparr>"

text \<open>
  A committed database in which the game of the code is paused only while in progress,
  and the states of the loop between two turns.
\<close>

definition commit_ok :: "string \<Rightarrow> database \<Rightarrow> bool" where
  "commit_ok code d \<longleftrightarrow>
     (\<exists>g. find_game d code = Some g \<and> (is_paused g \<longrightarrow> status g = IN_PROGRESS))"

definition last_commit :: "string \<Rightarrow> action list \<Rightarrow> (Game \<Rightarrow> bool) \<Rightarrow> bool" where
  "last_commit code acts P \<longleftrightarrow>
     commits acts \<noteq> [] \<and> (\<exists>g. find_game (last (commits acts)) code = Some g \<and> P g)"

definition running :: "string \<Rightarrow> 'b loop_state \<Rightarrow> bool" where
  "running code st \<longleftrightarrow>
     status (game st) = IN_PROGRESS \<and> \<not> is_paused (game st) \<and>
     game_code (game st) = code \<and> find_game (db st) code \<noteq> None"

definition numbering_inv ::
  "('b, 'm) rules \<Rightarrow> string \<Rightarrow> nat \<Rightarrow> Move list \<Rightarrow> 'b loop_state \<Rightarrow> bool" where
  "numbering_inv R code n0 ms0 st \<longleftrightarrow>
     game_code (game st) = code \<and>
     (\<exists>new. moves (db st) = ms0 @ new \<and> numbered code n0 new \<and>
        counter st = int ((n0 + length new) div 2) + 1 \<and>
        turn R (board st) = even (n0 + length new))"

text \<open>
  How the stored session ids of the game of a code may differ between a committed
  database and the next one: when no move was added, not at all; when a move was
  added, the id of the other side is as before, and the id of the side that moved is
  as before or not empty. \<open>row_loaded\<close> says that the game object of the loop is
  the row of the game in its database.
\<close>

definition sid_step :: "string \<Rightarrow> database \<Rightarrow> database \<Rightarrow> bool" where
  "sid_step code d d' =
     (case (find_game d code, find_game d' code) of
        (Some g, Some g') \<Rightarrow>
          if moves d' = moves d
          then white_session_id g' = white_session_id g \<and>
               black_session_id g' = black_session_id g
          else moves d' \<noteq> [] \<and> butlast (moves d') = moves d \<and>
               (let w = (color (last (moves d')) = WHITE)
                in stored_sid g' (\<not> w) = stored_sid g (\<not> w) \<and>
                   (stored_sid g' w = stored_sid g w \<or> truthy (stored_sid g' w)))
      | _ \<Rightarrow> False)"

definition row_loaded :: "string \<Rightarrow> 'b loop_state \<Rightarrow> bool" where
  "row_loaded code st \<longleftrightarrow>
     game_code (game st) = code \<and> find_game (db st) code = Some (game st)"

section \<open>Properties of the event bus\<close>

lemma connections_queue_put [simp]: "connections (queue_put s q x) = connections s"
  by (simp add: queue_put_def)

lemma next_queue_queue_put [simp]: "next_queue (queue_put s q x) = next_queue s"
  by (simp add: queue_put_def)

lemma connections_foldl_put [simp]:
  "connections (foldl (\<lambda>s' q. queue_put s' q x) s qs) = connections s"
  by (induction qs arbitrary: s) simp_all

lemma next_queue_foldl_put [simp]:
  "next_queue (foldl (\<lambda>s' q. queue_put s' q x) s qs) = next_queue s"
  by (induction qs arbitrary: s) simp_all

lemma connections_broadcast [simp]: "connections (broadcast s code ev) = connections s"
  by (simp add: broadcast_def split: option.splits)

lemma next_queue_broadcast [simp]: "next_queue (broadcast s code ev) = next_queue s"
  by (simp add: broadcast_def split: option.splits)

lemma connections_close_game [simp]: "connections (close_game s code) = connections s"
  by (simp add: close_game_def split: option.splits)

lemma next_queue_close_game [simp]: "next_queue (close_game s code) = next_queue s"
  by (simp add: close_game_def split: option.splits)

lemma broadcast_idle: "get_subscriber_count s code = 0 \<Longrightarrow> broadcast s code ev = s"
  by (simp add: get_subscriber_count_def broadcast_def split: option.splits)

lemma bus_inv_init: "bus_inv system_init"
  by (simp add: bus_inv_def system_init_def sse_init_def attached_def)

lemma map_of_swap:
  "distinct (map snd xs) \<Longrightarrow>
     map_of (map (\<lambda>(c, q'). (q', c)) xs) q = Some c \<longleftrightarrow> (c, q) \<in> set xs"
  by (induction xs) (auto simp: rev_image_eqI)

lemma stream_code_Some:
  "distinct (map snd (streams st)) \<Longrightarrow> stream_code st q = Some c \<longleftrightarrow> (c, q) \<in> set (streams st)"
  unfolding stream_code_def by (rule map_of_swap)

lemma filter_drop_queue:
  "distinct (map snd xs) \<Longrightarrow> (c, q) \<in> set xs \<Longrightarrow>
     map snd (filter (\<lambda>(c', q'). c' = code) (filter (\<lambda>(c', q'). q' \<noteq> q) xs)) =
       (if code = c then remove1 q (map snd (filter (\<lambda>(c', q'). c' = code) xs))
        else map snd (filter (\<lambda>(c', q'). c' = code) xs))"
proof (induction xs)
  case Nil then show ?case by simp
next
  case (Cons a xs)
  obtain c0 q0 where a: "a = (c0, q0)" by (cases a)
  show ?case
  proof (cases "q0 = q")
    case True
    with Cons.prems a have c0: "c0 = c" by (auto simp: rev_image_eqI)
    from Cons.prems a True have "q \<notin> snd ` set xs" by simp
    then have "filter (\<lambda>(c', q'). q' \<noteq> q) xs = xs"
      by (induction xs) auto
    with a True c0 show ?thesis by simp
  next
    case False
    with Cons a show ?thesis by auto
  qed
qed

lemma attached_drop:
  assumes "distinct (map snd (streams st))" "(c, q) \<in> set (streams st)"
  shows "attached (st\<lparr>bus := s', streams := drop_stream st q\<rparr>) code =
           (if code = c then remove1 q (attached st code) else attached st code)"
  using filter_drop_queue [OF assms] by (simp add: attached_def drop_stream_def)

lemma attached_bus [simp]: "attached (st\<lparr>bus := s'\<rparr>) code = attached st code"
  by (simp add: attached_def)

lemma finally_ok:
  assumes inv: "bus_inv st" and live: "stream_code st q = Some c"
    and conn: "connections s = connections (bus st)" and nq: "next_queue s = next_queue (bus st)"
  shows "\<exists>s'. subscribe_finally s c q = Inr s' \<and>
           bus_inv (st\<lparr>bus := s', streams := drop_stream st q\<rparr>)"
proof -
  from inv have d: "distinct (map snd (streams st))" by (simp add: bus_inv_def)
  with live have mem: "(c, q) \<in> set (streams st)" by (simp add: stream_code_Some)
  then have qa: "q \<in> set (attached st c)" by (force simp: attached_def)
  then have ne: "attached st c \<noteq> []" by auto
  from inv have cc: "connections (bus st) c = Some (attached st c)"
    using ne by (simp add: bus_inv_def)
  define s' where "s' = (if remove1 q (attached st c) = []
      then s\<lparr>connections := (connections s)(c := None)\<rparr>
      else s\<lparr>connections := (connections s)(c \<mapsto> remove1 q (attached st c))\<rparr>)"
  have fin: "subscribe_finally s c q = Inr s'"
    using qa cc conn by (simp add: subscribe_finally_def s'_def Let_def)
  have nq': "next_queue s' = next_queue (bus st)" by (simp add: s'_def nq)
  have d': "distinct (map snd (drop_stream st q))"
    using d by (simp add: drop_stream_def distinct_map_filter)
  have b': "\<forall>(c', q') \<in> set (drop_stream st q). q' < next_queue s'"
    using inv nq' by (auto simp: bus_inv_def drop_stream_def)
  have c': "connections s' code =
      (if attached (st\<lparr>bus := s', streams := drop_stream st q\<rparr>) code = [] then None
       else Some (attached (st\<lparr>bus := s', streams := drop_stream st q\<rparr>) code))" for code
    using inv by (simp add: attached_drop [OF d mem] s'_def conn bus_inv_def)
  show ?thesis using fin d' b' c' by (auto simp: bus_inv_def)
qed

lemma bus_step_inv:
  assumes "bus_inv st"
  shows "\<exists>st'. bus_step st x = Inr st' \<and> bus_inv st'"
proof (cases x)
  case (Subscribe code)
  have fresh: "next_queue (bus st) \<notin> snd ` set (streams st)"
    using assms by (force simp: bus_inv_def)
  show ?thesis using assms fresh
    by (auto simp: Subscribe subscribe_enter_def Let_def bus_inv_def attached_def less_Suc_eq)
next
  case (Next q)
  show ?thesis
  proof (cases "stream_code st q")
    case None with Next assms show ?thesis by simp
  next
    case (Some c)
    show ?thesis
    proof (cases "queue_store (bus st) q")
      case None with Next Some assms show ?thesis by (simp add: subscribe_next_def)
    next
      case (Some items)
      note qs = this
      show ?thesis
      proof (cases items)
        case Nil with Next \<open>stream_code st q = Some c\<close> qs assms show ?thesis
          by (simp add: subscribe_next_def)
      next
        case (Cons i rest)
        let ?s1 = "(bus st)\<lparr>queue_store := (queue_store (bus st))(q \<mapsto> rest)\<rparr>"
        show ?thesis
        proof (cases i)
          case (Frame ev)
          have "bus_inv (st\<lparr>bus := ?s1\<rparr>)" using assms by (simp add: bus_inv_def)
          with Next \<open>stream_code st q = Some c\<close> qs Cons Frame show ?thesis
            by (simp add: subscribe_next_def)
        next
          case ShutdownSignal
          from finally_ok [OF assms \<open>stream_code st q = Some c\<close>, of ?s1]
          obtain s' where "subscribe_finally ?s1 c q = Inr s'"
            "bus_inv (st\<lparr>bus := s', streams := drop_stream st q\<rparr>)" by auto
          with Next \<open>stream_code st q = Some c\<close> qs Cons ShutdownSignal show ?thesis
            by (simp add: subscribe_next_def)
        qed
      qed
    qed
  qed
next
  case (Disconnect q)
  show ?thesis
  proof (cases "stream_code st q")
    case None with Disconnect assms show ?thesis by simp
  next
    case (Some c)
    from finally_ok [OF assms Some, of "bus st"]
    obtain s' where "subscribe_finally (bus st) c q = Inr s'"
      "bus_inv (st\<lparr>bus := s', streams := drop_stream st q\<rparr>)" by auto
    with Disconnect Some show ?thesis by simp
  qed
next
  case (Broadcast code ev)
  with assms show ?thesis by (simp add: bus_inv_def)
next
  case (CloseGame code)
  with assms show ?thesis by (simp add: bus_inv_def)
qed

lemma bus_run_inv: "bus_inv st \<Longrightarrow> \<exists>st'. bus_run st ops = Inr st' \<and> bus_inv st'"
proof (induction ops arbitrary: st)
  case Nil then show ?case by simp
next
  case (Cons x xs)
  from bus_step_inv [OF Cons.prems, of x] obtain st1 where
    s: "bus_step st x = Inr st1" and i: "bus_inv st1" by auto
  from Cons.IH [OF i] s show ?case by simp
qed

text \<open>
  Claim C10. After any sequence of bus events from the empty bus, no step has raised,
  and for every code the subscriber count is the number of running streams of that
  code: the dictionary holds exactly their queues (each \<open>Subscribe\<close> appended one,
  each ended or disconnected stream removed its own), the entry is absent when there
  is none, and a broadcast for such a code changes nothing.
\<close>

theorem subscriber_count_tracks_streams:
  "\<exists>st. bus_run system_init ops = Inr st \<and>
     (\<forall>code. get_subscriber_count (bus st) code = length (attached st code) \<and>
        connections (bus st) code =
          (if attached st code = [] then None else Some (attached st code)) \<and>
        (attached st code = [] \<longrightarrow> (\<forall>ev. broadcast (bus st) code ev = bus st)))"
proof -
  from bus_run_inv [OF bus_inv_init, of ops] obtain st where
    r: "bus_run system_init ops = Inr st" and i: "bus_inv st" by auto
  have "get_subscriber_count (bus st) code = length (attached st code)" for code
    using i by (simp add: bus_inv_def get_subscriber_count_def)
  moreover have "attached st code = [] \<longrightarrow> (\<forall>ev. broadcast (bus st) code ev = bus st)" for code
    using i by (simp add: bus_inv_def broadcast_def)
  ultimately show ?thesis using r i by (auto simp: bus_inv_def)
qed

theorem subscriber_count_tracks_streams_witness:
  "\<exists>st. bus_run system_init
          [Subscribe ''ABC123'', Subscribe ''ABC123'', Broadcast ''ABC123'' [], Disconnect 0,
           CloseGame ''ABC123'', Next 1, Next 1] = Inr st \<and>
     (\<forall>code. get_subscriber_count (bus st) code = length (attached st code) \<and>
        connections (bus st) code =
          (if attached st code = [] then None else Some (attached st code)) \<and>
        (attached st code = [] \<longrightarrow> (\<forall>ev. broadcast (bus st) code ev = bus st)))"
  by (rule subscriber_count_tracks_streams)

text \<open>
  Claim C9. When a code has no subscriber, broadcasting an event to it returns the
  state it was given: no queue receives the event and nothing is stored, so every
  later run of the system, subscriptions included, is the run without the broadcast.
\<close>

theorem broadcast_without_subscribers:
  "get_subscriber_count (bus st) code = 0 \<Longrightarrow>
     broadcast (bus st) code ev = bus st \<and>
     bus_step st (Broadcast code ev) = Inr st \<and>
     bus_run st (Broadcast code ev # ops) = bus_run st ops"
  by (simp add: broadcast_idle)

theorem broadcast_without_subscribers_witness:
  "get_subscriber_count (bus system_init) ''ABC123'' = 0 \<and>
   broadcast (bus system_init) ''ABC123'' [(''type'', PStr ''game_started'')] = bus system_init \<and>
   bus_run system_init
     [Broadcast ''ABC123'' [(''type'', PStr ''game_started'')], Subscribe ''ABC123'', Next 0] =
   bus_run system_init [Subscribe ''ABC123'', Next 0]"
proof -
  have h: "get_subscriber_count (bus system_init) ''ABC123'' = 0"
    by (simp add: get_subscriber_count_def system_init_def sse_init_def)
  from broadcast_without_subscribers [OF h] show ?thesis using h by blast
qed

section \<open>Properties of the response parser\<close>

lemma take_run:
  "n \<le> length (takeWhile p s) \<Longrightarrow> \<forall>c \<in> set (take n s). p c"
proof (induction s arbitrary: n)
  case Nil then show ?case by simp
next
  case (Cons a s)
  then show ?case by (cases n) (auto split: if_splits)
qed

lemma match_plus_elem:
  assumes "y \<in> set (match_from (Plus p) (pv, s, cs))"
  shows "\<exists>n. 1 \<le> n \<and> n \<le> length (takeWhile p s) \<and> y = (Some (s ! (n - 1)), drop n s, cs)"
proof -
  from assms have "y \<in> advance (pv, s, cs) ` {1 ..< Suc (run_length p (pv, s, cs))}"
    by (simp only: match_from.simps set_map set_rev set_upt)
  then obtain n where n: "1 \<le> n" "n < Suc (run_length p (pv, s, cs))" and y: "y = advance (pv, s, cs) n"
    by auto
  from n have "n \<le> length (takeWhile p s)" by (simp add: run_length_def)
  with n(1) y show ?thesis by (auto simp: advance_def)
qed

lemma match_group_plus:
  assumes x: "x \<in> set (match_from (Group 1 (Plus p)) st)"
  shows "captured p x"
proof -
  obtain pv s cs where st: "st = (pv, s, cs)" by (cases st)
  from x have "x \<in> (\<lambda>(pv', s', cs'). (pv', s', (1, take (length (fst (snd st)) - length s') (fst (snd st))) # cs'))
      ` set (match_from (Plus p) st)"
    by (simp only: match_from.simps set_map)
  then obtain y where y: "y \<in> set (match_from (Plus p) st)"
    and xy: "x = (case y of (pv', s', cs') \<Rightarrow> (pv', s', (1, take (length (fst (snd st)) - length s') (fst (snd st))) # cs'))"
    by blast
  from match_plus_elem [OF y [unfolded st]] obtain n where
    n: "1 \<le> n" "n \<le> length (takeWhile p s)" and ye: "y = (Some (s ! (n - 1)), drop n s, cs)"
    by blast
  have le: "n \<le> length s" using n(2) length_takeWhile_le [of p s] by linarith
  then have t: "take (length s - length (drop n s)) s = take n s" by simp
  have ne: "take n s \<noteq> []" using n(1) le by auto
  from xy ye st t have "x = (Some (s ! (n - 1)), drop n s, (1, take n s) # cs)" by simp
  with take_run [OF n(2)] ne show ?thesis by (simp add: captured_def group_def)
qed

lemma match_seq_second:
  "x \<in> set (match_from (Seq a b) st) \<Longrightarrow> \<exists>st'. x \<in> set (match_from b st')"
  by auto

lemma match_seq_eps:
  "x \<in> set (match_from (Seq a Eps) st) \<Longrightarrow> x \<in> set (match_from a st)"
  by auto

lemma match_emotion_tail:
  assumes "x \<in> set (match_from (seqs [a, b, Group 1 (Plus p)]) st)"
  shows "captured p x"
proof -
  from assms have "x \<in> set (match_from (Seq a (Seq b (Seq (Group 1 (Plus p)) Eps))) st)"
    by (simp only: seqs.simps)
  then obtain st1 where "x \<in> set (match_from (Seq b (Seq (Group 1 (Plus p)) Eps)) st1)"
    by (blast dest: match_seq_second)
  then obtain st2 where "x \<in> set (match_from (Seq (Group 1 (Plus p)) Eps) st2)"
    by (blast dest: match_seq_second)
  then have "x \<in> set (match_from (Group 1 (Plus p)) st2)" by (rule match_seq_eps)
  then show ?thesis by (rule match_group_plus)
qed

lemma search_from_result:
  "search_from r pv s = Some (s', cs) \<Longrightarrow>
     \<exists>st pv'. (pv', s', cs) \<in> set (match_from r st)"
proof (induction s arbitrary: pv)
  case Nil
  show ?case
  proof (cases "match_from r (pv, [], [])")
    case Nil
    with Nil.prems show ?thesis by simp
  next
    case (Cons y ys)
    with Nil.prems have "(fst y, s', cs) \<in> set (match_from r (pv, [], []))"
      by (auto split: prod.splits)
    then show ?thesis by blast
  qed
next
  case (Cons c t)
  show ?case
  proof (cases "match_from r (pv, c # t, [])")
    case Nil
    with Cons show ?thesis by simp
  next
    case (Cons y ys)
    with Cons.prems have "(fst y, s', cs) \<in> set (match_from r (pv, c # t, []))"
      by (auto split: prod.splits)
    then show ?thesis by blast
  qed
qed

lemma strip_no_space:
  assumes "w \<noteq> []" "\<forall>c \<in> set w. \<not> is_space c"
  shows "strip w = w"
proof -
  from assms have 1: "dropWhile is_space w = w" by (cases w) auto
  from assms have "rev w \<noteq> []" "\<forall>c \<in> set (rev w). \<not> is_space c" by auto
  then have 2: "dropWhile is_space (rev w) = rev w" by (cases "rev w") auto
  show ?thesis by (simp add: strip_def 1 2)
qed

lemma extract_emotion:
  assumes "extract_field (seqs [a, b, Group 1 (Plus (\<lambda>c. \<not> is_space c))]) text = Some v"
  shows "v \<noteq> []"
proof -
  let ?r = "seqs [a, b, Group 1 (Plus (\<lambda>c. \<not> is_space c))]"
  from assms obtain s' cs where s: "search_from ?r None text = Some (s', cs)"
    and v: "v = strip (group cs 1)"
    by (auto simp: extract_field_def re_search_def split: option.splits)
  from search_from_result [OF s] obtain st pv' where
    "(pv', s', cs) \<in> set (match_from ?r st)" by blast
  from match_emotion_tail [OF this] have "group cs 1 \<noteq> []" "\<forall>c \<in> set (group cs 1). \<not> is_space c"
    by (simp_all add: captured_def)
  with v show ?thesis by (simp add: strip_no_space)
qed

lemma validate_emotion_cases:
  assumes "\<And>v. e = Some v \<Longrightarrow> v \<noteq> []"
  shows "validate_emotion e =
           (case e of None \<Rightarrow> None
            | Some v \<Rightarrow> Some (if v \<in> set VALID_EMOTIONS then v else ''stone_wall''))"
  using assms by (auto simp: validate_emotion_def split: option.splits)

lemma stone_wall_valid: "''stone_wall'' \<in> set VALID_EMOTIONS"
  by (simp add: VALID_EMOTIONS_def)

lemma overjoyed: "my_emotion (parse_chess_response ''MY_EMOTION: overjoyed'') = Some ''stone_wall''"
  by code_simp

text \<open>
  Claim C6. For every text, each emotion field of the parser's result is absent when
  its label is not found, and otherwise is the extracted value if that is one of the
  nine tags of \<open>VALID_EMOTIONS\<close> and \<open>stone_wall\<close> if it is not; so each field
  is absent or one of the nine tags, the parser never fails, and
  \<open>MY_EMOTION: overjoyed\<close> gives \<open>stone_wall\<close>.
\<close>

theorem emotions_in_valid_set:
  "my_emotion (parse_chess_response text) =
     (case extract_field my_emotion_pattern text of None \<Rightarrow> None
      | Some v \<Rightarrow> Some (if v \<in> set VALID_EMOTIONS then v else ''stone_wall'')) \<and>
   opponent_emotion (parse_chess_response text) =
     (case extract_field opponent_emotion_pattern text of None \<Rightarrow> None
      | Some v \<Rightarrow> Some (if v \<in> set VALID_EMOTIONS then v else ''stone_wall'')) \<and>
   my_emotion (parse_chess_response text) \<in> insert None (Some ` set VALID_EMOTIONS) \<and>
   opponent_emotion (parse_chess_response text) \<in> insert None (Some ` set VALID_EMOTIONS) \<and>
   length VALID_EMOTIONS = 9 \<and> distinct VALID_EMOTIONS \<and>
   my_emotion (parse_chess_response ''MY_EMOTION: overjoyed'') = Some ''stone_wall''"
proof -
  have m: "my_emotion (parse_chess_response text) =
     (case extract_field my_emotion_pattern text of None \<Rightarrow> None
      | Some v \<Rightarrow> Some (if v \<in> set VALID_EMOTIONS then v else ''stone_wall''))"
    using validate_emotion_cases [of "extract_field my_emotion_pattern text"]
      extract_emotion [of "lit_ci ''MY_EMOTION:''" "Star is_space" "text"]
    by (simp add: parse_chess_response_def my_emotion_pattern_def)
  have p: "opponent_emotion (parse_chess_response text) =
     (case extract_field opponent_emotion_pattern text of None \<Rightarrow> None
      | Some v \<Rightarrow> Some (if v \<in> set VALID_EMOTIONS then v else ''stone_wall''))"
    using validate_emotion_cases [of "extract_field opponent_emotion_pattern text"]
      extract_emotion [of "lit_ci ''OPPONENT_EMOTION:''" "Star is_space" "text"]
    by (simp add: parse_chess_response_def opponent_emotion_pattern_def)
  have m': "my_emotion (parse_chess_response text) \<in> insert None (Some ` set VALID_EMOTIONS)"
    unfolding m using stone_wall_valid by (simp split: option.splits)
  have p': "opponent_emotion (parse_chess_response text) \<in> insert None (Some ` set VALID_EMOTIONS)"
    unfolding p using stone_wall_valid by (simp split: option.splits)
  have l: "length VALID_EMOTIONS = 9" "distinct VALID_EMOTIONS"
    by (simp_all add: VALID_EMOTIONS_def)
  from m p m' p' l overjoyed show ?thesis by blast
qed

theorem emotions_in_valid_set_witness:
  "my_emotion (parse_chess_response ''MY_EMOTION: Predator OPPONENT_EMOTION: predator'') = Some ''stone_wall'' \<and>
   opponent_emotion (parse_chess_response ''MY_EMOTION: Predator OPPONENT_EMOTION: predator'') = Some ''predator''"
proof -
  have a: "extract_field my_emotion_pattern ''MY_EMOTION: Predator OPPONENT_EMOTION: predator'' = Some ''Predator''"
    by code_simp
  have b: "extract_field opponent_emotion_pattern ''MY_EMOTION: Predator OPPONENT_EMOTION: predator'' = Some ''predator''"
    by code_simp
  from emotions_in_valid_set [of "''MY_EMOTION: Predator OPPONENT_EMOTION: predator''"]
  show ?thesis unfolding a b by (simp add: VALID_EMOTIONS_def)
qed

text \<open>
  Claim C3. On a text with no \<open>MOVE:\<close> label that contains the move \<open>e4\<close>, the
  parser used by the match loop, \<open>parse_chess_response\<close>, makes no second pass and
  returns no move, while the earlier parser \<open>parse_llm_response\<close> of the same
  repository scans the text and returns \<open>e4\<close>.
\<close>

theorem parse_chess_response_no_secondary_pass:
  "move (parse_chess_response ''I will play e4'') = None \<and>
   fst (parse_llm_response ''I will play e4'') = Some ''e4''"
  by code_simp

section \<open>Properties of the match loop\<close>

lemma MoveEvent_built:
  "MoveEvent (move_event_kwargs n c u s cm fb f a cy ca me oe) =
     Some [(''type'', PStr ''move''), (''move_number'', PInt n), (''color'', PStr (color_value c)),
           (''move_uci'', PStr u), (''move_san'', PStr s), (''comment'', opt_str cm),
           (''was_fallback'', PBool fb), (''board_fen'', PStr f), (''board_ascii'', PStr a)]"
  by (simp add: MoveEvent_def MoveEvent_fields_def move_event_kwargs_def)

lemma GameStartedEvent_built: "GameStartedEvent [] = Some [(''type'', PStr ''game_started'')]"
  by (simp add: GameStartedEvent_def)

lemma GameOverEvent_built:
  "GameOverEvent [(''result'', PStr r), (''termination'', PStr t)] =
     Some [(''type'', PStr ''game_over''), (''result'', PStr r), (''termination'', PStr t)]"
  by (simp add: GameOverEvent_def)

lemma find_game_commit:
  "find_game d (game_code g) \<noteq> None \<Longrightarrow> find_game (db_commit d g) (game_code g) = Some g"
proof -
  have "find (\<lambda>x. game_code x = k) xs \<noteq> None \<Longrightarrow> game_code g = k \<Longrightarrow>
        find (\<lambda>x. game_code x = k) (map (\<lambda>g'. if game_code g' = game_code g then g else g') xs) = Some g"
    for k xs
    by (induction xs) auto
  then show "find_game d (game_code g) \<noteq> None \<Longrightarrow> ?thesis"
    by (simp add: find_game_def db_commit_def)
qed

lemma find_game_add [simp]: "find_game (db_add d m) code = find_game d code"
  by (simp add: find_game_def db_add_def)

lemma moves_commit [simp]: "moves (db_commit d g) = moves d"
  by (simp add: db_commit_def)

lemma moves_add [simp]: "moves (db_add d m) = moves d @ [m]"
  by (simp add: db_add_def)

text \<open>The game object after the oracle call differs from the one before in the session ids only.\<close>

lemma ask_oracle_game:
  "ask_oracle R st p = (cmd, r, g1) \<Longrightarrow>
     status g1 = status (game st) \<and> is_paused g1 = is_paused (game st) \<and>
     game_code g1 = game_code (game st)"
  by (auto simp: ask_oracle_def Let_def split: if_splits)

text \<open>What a turn that goes through does.\<close>

lemma apply_move_result:
  "apply_move R st g1 parsed inp (m, fb, cm) =
     (let b = board st; c = (if turn R b then WHITE else BLACK);
          g2 = g1\<lparr>board_fen := fen R (push R b m),
                  current_turn := (if turn R b then BLACK else WHITE)\<rparr>;
          mv = \<lparr>move_game_code = game_code g1, move_number = counter st, color = c,
                move_uci = uci R m, move_san = san R b m, move_comment = cm, was_fallback = fb\<rparr>;
          d = db_commit (db_add (db st) mv) g2
      in ([Commit d,
           Publish [(''type'', PStr ''move''), (''move_number'', PInt (counter st)),
                    (''color'', PStr (color_value c)), (''move_uci'', PStr (uci R m)),
                    (''move_san'', PStr (san R b m)), (''comment'', opt_str cm),
                    (''was_fallback'', PBool fb), (''board_fen'', PStr (fen R (push R b m))),
                    (''board_ascii'', PStr (board_str R (push R b m)))]],
          Inr \<lparr>game = g2, board = push R b m,
               counter = (if turn R b then counter st else counter st + 1), db = d\<rparr>))"
  by (simp add: apply_move_def Let_def MoveEvent_built)

lemma play_turn_cases:
  assumes "play_turn R st inp = (acts, res)"
  obtains (crash) cmd e where "acts = [Call cmd]" "res = Inl e"
  | (played) cmd r g1 parsed m fb cm acts' st' where
      "ask_oracle R st (proc inp) = (cmd, r, g1)"
      "apply_move R st g1 parsed inp (m, fb, cm) = (acts', Inr st')"
      "acts = Call cmd # acts'" "res = Inr st'"
proof -
  obtain cmd r g1 where a: "ask_oracle R st (proc inp) = (cmd, r, g1)"
    by (cases "ask_oracle R st (proc inp)")
  show ?thesis
  proof (cases "llm_text r")
    case (PStr tx)
    show ?thesis
    proof (cases "resolve_move R (board st) (parse_chess_response tx) (pick inp)")
      case (Inl e)
      with assms a PStr have "acts = [Call cmd]" "res = Inl e"
        by (simp_all add: play_turn_def)
      then show ?thesis by (rule crash)
    next
      case (Inr x)
      obtain m fb cm where x: "x = (m, fb, cm)" by (cases x)
      obtain acts' st' where ap:
        "apply_move R st g1 (parse_chess_response tx) inp (m, fb, cm) = (acts', Inr st')"
        by (simp add: apply_move_result Let_def)
      with assms a PStr Inr x have "acts = Call cmd # acts'" "res = Inr st'"
        by (simp_all add: play_turn_def)
      with a ap show ?thesis by (rule played)
    qed
  next
    case PNone
    with assms a have "acts = [Call cmd]" "res = Inl TypeError" by (simp_all add: play_turn_def)
    then show ?thesis by (rule crash)
  next
    case (PInt i)
    with assms a have "acts = [Call cmd]" "res = Inl TypeError" by (simp_all add: play_turn_def)
    then show ?thesis by (rule crash)
  next
    case (PBool x)
    with assms a have "acts = [Call cmd]" "res = Inl TypeError" by (simp_all add: play_turn_def)
    then show ?thesis by (rule crash)
  qed
qed


lemma commits_append [simp]: "commits (xs @ ys) = commits xs @ commits ys"
  by (induction xs rule: commits.induct) simp_all

subsection \<open>The paused flag\<close>

lemma finish_game_running:
  assumes "running code st" "finish_game R st = (acts, how, st')"
  shows "how = Completed \<and> (\<forall>d \<in> set (commits acts). commit_ok code d) \<and>
         last_commit code acts (\<lambda>g. \<not> is_paused g \<and> status g = COMPLETED)"
proof -
  obtain res tm where r: "get_game_result R (board st) = (res, tm)"
    by (cases "get_game_result R (board st)")
  let ?g = "(game st)\<lparr>status := COMPLETED, result := Some res\<rparr>"
  have c: "game_code ?g = code" using assms(1) by (simp add: running_def)
  have f: "find_game (db_commit (db st) ?g) code = Some ?g"
    using find_game_commit [of "db st" ?g] assms(1) c by (simp add: running_def)
  from assms(2) r have a: "acts = [Commit (db_commit (db st) ?g),
      Publish [(''type'', PStr ''game_over''), (''result'', PStr res), (''termination'', PStr tm)]]"
    and h: "how = Completed"
    by (simp_all add: finish_game_def Let_def GameOverEvent_built)
  from a h f assms(1) show ?thesis
    by (simp add: commit_ok_def last_commit_def running_def)
qed

lemma pause_game_running:
  assumes "running code st" "pause_game st h = (acts, how, st')"
  shows "how = h \<and> (\<forall>d \<in> set (commits acts). commit_ok code d) \<and>
         last_commit code acts (\<lambda>g. is_paused g \<and> status g = IN_PROGRESS)"
proof -
  let ?g = "(game st)\<lparr>is_paused := True\<rparr>"
  have c: "game_code ?g = code" using assms(1) by (simp add: running_def)
  have f: "find_game (db_commit (db st) ?g) code = Some ?g"
    using find_game_commit [of "db st" ?g] assms(1) c by (simp add: running_def)
  from assms(2) have a: "acts = [Commit (db_commit (db st) ?g)]" and h: "how = h"
    by (simp_all add: pause_game_def Let_def)
  from a h f assms(1) show ?thesis
    by (simp add: commit_ok_def last_commit_def running_def)
qed

lemma apply_move_running:
  assumes "running code st" "status g1 = status (game st)" "is_paused g1 = is_paused (game st)"
    "game_code g1 = game_code (game st)"
    "apply_move R st g1 parsed inp (m, fb, cm) = (acts, Inr st')"
  shows "running code st' \<and> (\<forall>d \<in> set (commits acts). commit_ok code d) \<and>
         last_commit code acts (\<lambda>g. \<not> is_paused g \<and> status g = IN_PROGRESS)"
proof -
  let ?g = "g1\<lparr>board_fen := fen R (push R (board st) m),
               current_turn := (if turn R (board st) then BLACK else WHITE)\<rparr>"
  let ?mv = "\<lparr>move_game_code = game_code g1, move_number = counter st,
               color = (if turn R (board st) then WHITE else BLACK),
               move_uci = uci R m, move_san = san R (board st) m, move_comment = cm,
               was_fallback = fb\<rparr>"
  let ?d = "db_commit (db_add (db st) ?mv) ?g"
  have c: "game_code ?g = code" using assms(1,4) by (simp add: running_def)
  have f: "find_game ?d code = Some ?g"
    using find_game_commit [of "db_add (db st) ?mv" ?g] assms(1) c by (simp add: running_def)
  from assms(5) have a: "commits acts = [?d]" and s: "game st' = ?g" "db st' = ?d"
    by (auto simp: apply_move_result Let_def)
  from a s f c assms(1-3) show ?thesis
    by (simp add: commit_ok_def last_commit_def running_def)
qed

lemma last_commit_append:
  "last_commit code ys P \<Longrightarrow> last_commit code (xs @ ys) P"
  by (simp add: last_commit_def)

lemma game_loop_running:
  "running code st \<Longrightarrow> game_loop R st inps = (acts, how, st') \<Longrightarrow>
     (\<forall>d \<in> set (commits acts). commit_ok code d) \<and>
     how \<noteq> TimedOut \<and> how \<noteq> NotFound \<and>
     (how = NoViewers \<longrightarrow> last_commit code acts (\<lambda>g. is_paused g \<and> status g = IN_PROGRESS)) \<and>
     (how = Completed \<longrightarrow> last_commit code acts (\<lambda>g. \<not> is_paused g \<and> status g = COMPLETED))"
proof (induction inps arbitrary: st acts how st')
  case Nil
  show ?case
  proof (cases "is_game_over R (board st)")
    case True
    with Nil have "finish_game R st = (acts, how, st')" by simp
    from finish_game_running [OF Nil.prems(1) this] show ?thesis by simp
  next
    case False
    with Nil show ?thesis by simp
  qed
next
  case (Cons inp inps)
  show ?case
  proof (cases "is_game_over R (board st)")
    case True
    with Cons.prems have "finish_game R st = (acts, how, st')" by simp
    from finish_game_running [OF Cons.prems(1) this] show ?thesis by simp
  next
    case False
    note playing = this
    show ?thesis
    proof (cases "viewers inp = 0")
      case True
      with playing Cons.prems have "pause_game st NoViewers = (acts, how, st')" by simp
      from pause_game_running [OF Cons.prems(1) this] show ?thesis by simp
    next
      case False
      obtain acts1 res where pt: "play_turn R st inp = (acts1, res)"
        by (cases "play_turn R st inp")
      from pt show ?thesis
      proof (cases rule: play_turn_cases)
        case (crash cmd e)
        with pt playing False Cons.prems(2) show ?thesis by auto
      next
        case (played cmd r g1 parsed m fb cm acts2 st1)
        from ask_oracle_game [OF played(1)] apply_move_running [OF Cons.prems(1) _ _ _ played(2)]
        have run1: "running code st1" and ok2: "\<forall>d \<in> set (commits acts2). commit_ok code d"
          by simp_all
        obtain acts3 how3 st3 where gl: "game_loop R st1 inps = (acts3, how3, st3)"
          by (cases "game_loop R st1 inps") auto
        from pt played playing False Cons.prems(2) gl
        have e: "acts = Call cmd # acts2 @ acts3" "how = how3" by simp_all
        from Cons.IH [OF run1 gl] ok2 e show ?thesis
          by (auto simp: last_commit_def)
      qed
    qed
  qed
qed


lemma find_game_code: "find_game d code = Some g \<Longrightarrow> game_code g = code"
  by (auto simp: find_game_def find_Some_iff)

text \<open>
  Claim C8. In every database that \<open>run_game\<close> commits, the game is paused only while
  its status is in progress. The first commit has it in progress and not paused; a
  run that ends for want of subscribers, after the wait or at the start of a turn,
  leaves it paused and in progress; a run that ends with the game leaves it completed
  and not paused.
\<close>

theorem paused_only_in_progress:
  assumes "run_game R db0 code polls inps = (acts, how, fin)"
  shows "(\<forall>d \<in> set (commits acts).
            \<exists>g. find_game d code = Some g \<and> (is_paused g \<longrightarrow> status g = IN_PROGRESS)) \<and>
         (how \<noteq> NotFound \<longrightarrow>
            (\<exists>g. find_game (hd (commits acts)) code = Some g \<and>
                 \<not> is_paused g \<and> status g = IN_PROGRESS)) \<and>
         (how = TimedOut \<or> how = NoViewers \<longrightarrow>
            (\<exists>g. find_game (last (commits acts)) code = Some g \<and>
                 is_paused g \<and> status g = IN_PROGRESS)) \<and>
         (how = Completed \<longrightarrow>
            (\<exists>g. find_game (last (commits acts)) code = Some g \<and>
                 \<not> is_paused g \<and> status g = COMPLETED))"
proof (cases "find_game db0 code")
  case None
  with assms show ?thesis by (simp add: run_game_def)
next
  case (Some g)
  let ?g1 = "g\<lparr>status := IN_PROGRESS, is_paused := False\<rparr>"
  let ?d1 = "db_commit db0 ?g1"
  let ?st = "\<lparr>game = ?g1, board = from_fen R (board_fen g),
              counter = int (count_moves ?d1 code) div 2 + 1, db = ?d1\<rparr>"
  have c: "game_code ?g1 = code" using find_game_code [OF Some] by simp
  have f: "find_game ?d1 code = Some ?g1"
    using find_game_commit [of db0 ?g1] Some c by simp
  have run: "running code ?st" using c f by (simp add: running_def)
  obtain acts' how' st' where
    rest: "(if poll_loop polls 0 max_wait then game_loop R ?st inps else pause_game ?st TimedOut) =
             (acts', how', st')"
    by (cases "if poll_loop polls 0 max_wait then game_loop R ?st inps else pause_game ?st TimedOut")
      auto
  from assms Some rest have e: "acts = Publish [(''type'', PStr ''game_started'')] # Commit ?d1 # acts'"
    "how = how'"
    by (simp_all add: run_game_def Let_def GameStartedEvent_built)
  have tail: "(\<forall>d \<in> set (commits acts'). commit_ok code d) \<and>
     (how' = TimedOut \<or> how' = NoViewers \<longrightarrow>
        last_commit code acts' (\<lambda>g. is_paused g \<and> status g = IN_PROGRESS)) \<and>
     (how' = Completed \<longrightarrow> last_commit code acts' (\<lambda>g. \<not> is_paused g \<and> status g = COMPLETED))"
  proof (cases "poll_loop polls 0 max_wait")
    case True
    with rest have "game_loop R ?st inps = (acts', how', st')" by simp
    from game_loop_running [OF run this] show ?thesis by simp
  next
    case False
    with rest have "pause_game ?st TimedOut = (acts', how', st')" by simp
    from pause_game_running [OF run this] show ?thesis by simp
  qed
  have first: "commit_ok code ?d1" using f by (simp add: commit_ok_def)
  from tail first e f show ?thesis
    by (auto simp: commit_ok_def last_commit_def)
qed

theorem paused_only_in_progress_witness:
  "\<exists>g. find_game (last (commits (fst (run_game line_rules new_db ''ABC123'' no_viewer []))))
          ''ABC123'' = Some g \<and> is_paused g \<and> status g = IN_PROGRESS"
proof -
  obtain acts how fin where
    r: "run_game line_rules new_db ''ABC123'' no_viewer ([] :: turn_input list) = (acts, how, fin)"
    by (cases "run_game line_rules new_db ''ABC123'' no_viewer ([] :: turn_input list)") auto
  have "fst (snd (run_game line_rules new_db ''ABC123'' no_viewer ([] :: turn_input list))) = TimedOut"
    by code_simp
  with r have "how = TimedOut" by simp
  with paused_only_in_progress [OF r] r show ?thesis by simp
qed

subsection \<open>The numbering of the moves\<close>

lemma numbered_Nil [simp]: "numbered code n0 []"
  by (simp add: numbered_def)

lemma numbered_snoc:
  "numbered code n0 ms \<Longrightarrow> move_game_code m = code \<Longrightarrow>
   move_number m = int ((n0 + length ms) div 2) + 1 \<Longrightarrow>
   color m = (if even (n0 + length ms) then WHITE else BLACK) \<Longrightarrow>
   numbered code n0 (ms @ [m])"
  by (simp add: numbered_def)

lemma next_counter:
  "(if even n then int (n div 2) + 1 else int (n div 2) + 1 + 1) = int (Suc n div 2) + 1"
  by (auto elim: evenE oddE)

lemma apply_move_numbering:
  assumes toggle: "\<forall>b m. turn R (push R b m) = (\<not> turn R b)"
    and inv: "numbering_inv R code n0 ms0 st"
    and g1: "game_code g1 = game_code (game st)"
    and ap: "apply_move R st g1 parsed inp (m, fb, cm) = (acts, Inr st')"
  shows "numbering_inv R code n0 ms0 st' \<and>
         (\<forall>d \<in> set (commits acts). \<exists>new. moves d = ms0 @ new \<and> numbered code n0 new)"
proof -
  from inv obtain new where c: "game_code (game st) = code"
    and mv: "moves (db st) = ms0 @ new" and nb: "numbered code n0 new"
    and ct: "counter st = int ((n0 + length new) div 2) + 1"
    and tn: "turn R (board st) = even (n0 + length new)"
    by (auto simp: numbering_inv_def)
  let ?mv = "\<lparr>move_game_code = game_code g1, move_number = counter st,
               color = (if turn R (board st) then WHITE else BLACK),
               move_uci = uci R m, move_san = san R (board st) m, move_comment = cm,
               was_fallback = fb\<rparr>"
  have nb': "numbered code n0 (new @ [?mv])"
    using nb g1 c ct tn by (intro numbered_snoc) simp_all
  from ap have a: "map moves (commits acts) = [ms0 @ new @ [?mv]]"
    and s: "moves (db st') = ms0 @ new @ [?mv]" "game_code (game st') = code"
      "board st' = push R (board st) m"
      "counter st' = (if turn R (board st) then counter st else counter st + 1)"
    using mv g1 c by (auto simp: apply_move_result Let_def)
  have ct': "counter st' = int ((n0 + length (new @ [?mv])) div 2) + 1"
    using s(4) ct tn next_counter [of "n0 + length new"] by simp
  have tn': "turn R (board st') = even (n0 + length (new @ [?mv]))"
    using s(3) toggle tn by simp
  have "numbering_inv R code n0 ms0 st'"
    unfolding numbering_inv_def using s(1,2) nb' ct' tn' by (intro conjI exI [of _ "new @ [?mv]"]) simp_all
  moreover have "\<forall>d \<in> set (commits acts). \<exists>new. moves d = ms0 @ new \<and> numbered code n0 new"
  proof
    fix d assume "d \<in> set (commits acts)"
    then have "moves d \<in> set (map moves (commits acts))" by simp
    with a have "moves d = ms0 @ (new @ [?mv])" by simp
    with nb' show "\<exists>new. moves d = ms0 @ new \<and> numbered code n0 new" by blast
  qed
  ultimately show ?thesis ..
qed

lemma keep_moves_numbering:
  assumes "numbering_inv R code n0 ms0 st"
  shows "\<exists>new. moves (db st) = ms0 @ new \<and> numbered code n0 new"
  using assms by (auto simp: numbering_inv_def)

lemma game_loop_numbering:
  assumes toggle: "\<forall>b m. turn R (push R b m) = (\<not> turn R b)"
  shows "numbering_inv R code n0 ms0 st \<Longrightarrow> game_loop R st inps = (acts, how, st') \<Longrightarrow>
     (\<forall>d \<in> set (commits acts). \<exists>new. moves d = ms0 @ new \<and> numbered code n0 new)"
proof (induction inps arbitrary: st acts how st')
  case Nil
  obtain res tm where r: "get_game_result R (board st) = (res, tm)"
    by (cases "get_game_result R (board st)")
  from Nil.prems(2) r keep_moves_numbering [OF Nil.prems(1)] show ?case
    by (auto simp: finish_game_def Let_def GameOverEvent_built split: if_splits)
next
  case (Cons inp inps)
  obtain res tm where r: "get_game_result R (board st) = (res, tm)"
    by (cases "get_game_result R (board st)")
  show ?case
  proof (cases "is_game_over R (board st) \<or> viewers inp = 0")
    case True
    with Cons.prems(2) r keep_moves_numbering [OF Cons.prems(1)] show ?thesis
      by (auto simp: finish_game_def pause_game_def Let_def GameOverEvent_built split: if_splits)
  next
    case False
    obtain acts1 res1 where pt: "play_turn R st inp = (acts1, res1)"
      by (cases "play_turn R st inp")
    from pt show ?thesis
    proof (cases rule: play_turn_cases)
      case (crash cmd e)
      with pt False Cons.prems(2) show ?thesis by auto
    next
      case (played cmd r g1 parsed m fb cm acts2 st1)
      from ask_oracle_game [OF played(1)] have "game_code g1 = game_code (game st)" by simp
      from apply_move_numbering [OF toggle Cons.prems(1) this played(2)]
      have inv1: "numbering_inv R code n0 ms0 st1"
        and ok2: "\<forall>d \<in> set (commits acts2). \<exists>new. moves d = ms0 @ new \<and> numbered code n0 new"
        by simp_all
      obtain acts3 how3 st3 where gl: "game_loop R st1 inps = (acts3, how3, st3)"
        by (cases "game_loop R st1 inps") auto
      from pt played False Cons.prems(2) gl
      have e: "acts = Call cmd # acts2 @ acts3" by simp
      from Cons.IH [OF inv1 gl] ok2 e show ?thesis by auto
    qed
  qed
qed


text \<open>
  Claim C7. Let the game be in the database with \<open>n0\<close> moves of its code recorded
  (\<open>n0\<close> is the number of rows of the table of moves that carry the code), white to
  move exactly when \<open>n0\<close> is even, in a rules engine where a move passes the turn.
  Then in every database that \<open>run_game\<close> commits the recorded moves are the earlier
  ones followed by moves of this game of which the one at position \<open>n\<close> of the game
  has number \<open>n div 2 + 1\<close> and is white's exactly when \<open>n\<close> is even: numbers
  start at 1, the two moves of a full turn share their number, the number goes up only
  after black has moved, and a run on a game with recorded moves continues their
  numbering from the stored count.
\<close>

theorem move_numbers_shared_by_turn:
  assumes "\<forall>b m. turn R (push R b m) = (\<not> turn R b)"
    and "find_game db0 code = Some g"
    and "turn R (from_fen R (board_fen g)) =
           even (length (filter (\<lambda>m. move_game_code m = code) (moves db0)))"
  shows "\<forall>d \<in> set (commits (fst (run_game R db0 code polls inps))).
           \<exists>new. moves d = moves db0 @ new \<and>
             map (\<lambda>m. (move_game_code m, move_number m, color m)) new =
             map (\<lambda>i. (code,
                        int ((length (filter (\<lambda>m. move_game_code m = code) (moves db0)) + i) div 2) + 1,
                        if even (length (filter (\<lambda>m. move_game_code m = code) (moves db0)) + i)
                        then WHITE else BLACK))
               [0 ..< length new]"
proof -
  let ?n0 = "length (filter (\<lambda>m. move_game_code m = code) (moves db0))"
  let ?g1 = "g\<lparr>status := IN_PROGRESS, is_paused := False\<rparr>"
  let ?d1 = "db_commit db0 ?g1"
  let ?st = "\<lparr>game = ?g1, board = from_fen R (board_fen g),
              counter = int (count_moves ?d1 code) div 2 + 1, db = ?d1\<rparr>"
  have cm: "count_moves ?d1 code = ?n0" by (simp add: count_moves_def)
  have "int ?n0 div 2 = int (?n0 div 2)" by (simp add: zdiv_int)
  then have inv: "numbering_inv R code ?n0 (moves db0) ?st"
    using find_game_code [OF assms(2)] assms(3) cm
    by (simp add: numbering_inv_def)
  obtain acts' how' st' where
    rest: "(if poll_loop polls 0 max_wait then game_loop R ?st inps else pause_game ?st TimedOut) =
             (acts', how', st')"
    by (cases "if poll_loop polls 0 max_wait then game_loop R ?st inps else pause_game ?st TimedOut")
      auto
  from assms(2) rest have e: "commits (fst (run_game R db0 code polls inps)) = ?d1 # commits acts'"
    by (simp add: run_game_def Let_def GameStartedEvent_built)
  have tail: "\<forall>d \<in> set (commits acts'). \<exists>new. moves d = moves db0 @ new \<and> numbered code ?n0 new"
  proof (cases "poll_loop polls 0 max_wait")
    case True
    with rest have "game_loop R ?st inps = (acts', how', st')" by simp
    from game_loop_numbering [OF assms(1) inv this] show ?thesis .
  next
    case False
    with rest keep_moves_numbering [OF inv] show ?thesis
      by (auto simp: pause_game_def Let_def)
  qed
  have first: "\<exists>new. moves ?d1 = moves db0 @ new \<and> numbered code ?n0 new"
    by (intro exI [of _ "[]"]) simp
  from tail first e show ?thesis by (simp add: numbered_def)
qed

theorem move_numbers_shared_by_turn_witness:
  "map (\<lambda>m. (move_game_code m, move_number m, color m))
     (moves (last (commits (fst (run_game line_rules new_db ''ABC123'' one_viewer
        [turn_with ProcessNotFound, turn_with ProcessNotFound, turn_with ProcessNotFound,
         turn_with ProcessNotFound]))))) =
   [(''ABC123'', 1, WHITE), (''ABC123'', 1, BLACK), (''ABC123'', 2, WHITE), (''ABC123'', 2, BLACK)] \<and>
   map (\<lambda>m. (move_game_code m, move_number m, color m))
     (moves (last (commits (fst (run_game line_rules resumed_db ''ABC123'' one_viewer
        [turn_with ProcessNotFound, turn_with ProcessNotFound, turn_with ProcessNotFound]))))) =
   [(''ZZZ999'', 7, WHITE), (''ABC123'', 1, WHITE),
    (''ABC123'', 1, BLACK), (''ABC123'', 2, WHITE), (''ABC123'', 2, BLACK)]"
proof -
  let ?f = "\<lambda>m. (move_game_code m, move_number m, color m)"
  let ?inps = "[turn_with ProcessNotFound, turn_with ProcessNotFound, turn_with ProcessNotFound,
         turn_with ProcessNotFound]"
  let ?cs = "commits (fst (run_game line_rules new_db ''ABC123'' one_viewer ?inps))"
  let ?inps' = "[turn_with ProcessNotFound, turn_with ProcessNotFound, turn_with ProcessNotFound]"
  let ?cs' = "commits (fst (run_game line_rules resumed_db ''ABC123'' one_viewer ?inps'))"
  have h1: "\<forall>b m. turn line_rules (push line_rules b m) = (\<not> turn line_rules b)"
    by (simp add: line_rules_def)
  have h2: "find_game new_db ''ABC123'' = Some new_game"
    by (simp add: find_game_def new_db_def new_game_def)
  have n0: "length (filter (\<lambda>m. move_game_code m = ''ABC123'') (moves new_db)) = 0"
    by (simp add: new_db_def)
  have h3: "turn line_rules (from_fen line_rules (board_fen new_game)) =
              even (length (filter (\<lambda>m. move_game_code m = ''ABC123'') (moves new_db)))"
    unfolding n0 by (simp add: line_rules_def new_game_def line_fens_def)
  have ne: "?cs \<noteq> []" by code_simp
  have len: "length (moves (last ?cs)) = 4" by code_simp
  from move_numbers_shared_by_turn [OF h1 h2 h3, of one_viewer ?inps] ne
  have "\<exists>new. moves (last ?cs) = moves new_db @ new \<and>
      map ?f new =
      map (\<lambda>i. (''ABC123'',
                 int ((length (filter (\<lambda>m. move_game_code m = ''ABC123'') (moves new_db)) + i) div 2) + 1,
                 if even (length (filter (\<lambda>m. move_game_code m = ''ABC123'') (moves new_db)) + i)
                 then WHITE else BLACK))
        [0 ..< length new]"
    by (meson last_in_set)
  then obtain new where m: "moves (last ?cs) = new"
    and nb: "map ?f new =
      map (\<lambda>i. (''ABC123'', int (i div 2) + 1, if even i then WHITE else BLACK)) [0 ..< length new]"
    unfolding n0 by (auto simp: new_db_def)
  from len m have "length new = 4" by simp
  then have "[0 ..< length new] = [0, 1, 2, 3]" by (simp add: upt_rec)
  with nb m have fresh: "map ?f (moves (last ?cs)) =
     [(''ABC123'', 1, WHITE), (''ABC123'', 1, BLACK), (''ABC123'', 2, WHITE), (''ABC123'', 2, BLACK)]"
    by simp
  have h2': "find_game resumed_db ''ABC123'' = Some resumed_game"
    by (simp add: find_game_def resumed_db_def resumed_game_def new_game_def)
  have n1: "length (filter (\<lambda>m. move_game_code m = ''ABC123'') (moves resumed_db)) = 1"
    by (simp add: resumed_db_def)
  have h3': "turn line_rules (from_fen line_rules (board_fen resumed_game)) =
              even (length (filter (\<lambda>m. move_game_code m = ''ABC123'') (moves resumed_db)))"
    unfolding n1 by (simp add: line_rules_def resumed_game_def line_fens_def)
  have ne': "?cs' \<noteq> []" by code_simp
  have len': "length (moves (last ?cs')) = 5" by code_simp
  from move_numbers_shared_by_turn [OF h1 h2' h3', of one_viewer ?inps'] ne'
  have "\<exists>new. moves (last ?cs') = moves resumed_db @ new \<and>
      map ?f new =
      map (\<lambda>i. (''ABC123'',
                 int ((length (filter (\<lambda>m. move_game_code m = ''ABC123'') (moves resumed_db)) + i) div 2) + 1,
                 if even (length (filter (\<lambda>m. move_game_code m = ''ABC123'') (moves resumed_db)) + i)
                 then WHITE else BLACK))
        [0 ..< length new]"
    by (meson last_in_set)
  then obtain new' where m': "moves (last ?cs') = moves resumed_db @ new'"
    and nb': "map ?f new' =
      map (\<lambda>i. (''ABC123'', int ((1 + i) div 2) + 1, if even (1 + i) then WHITE else BLACK))
        [0 ..< length new']"
    unfolding n1 by auto
  from len' m' have "length new' = 3" by (simp add: resumed_db_def)
  then have "[0 ..< length new'] = [0, 1, 2]" by (simp add: upt_rec)
  with nb' have "map ?f new' = [(''ABC123'', 1, BLACK), (''ABC123'', 2, WHITE), (''ABC123'', 2, BLACK)]"
    by simp
  with m' have resumed: "map ?f (moves (last ?cs')) =
     [(''ZZZ999'', 7, WHITE), (''ABC123'', 1, WHITE),
      (''ABC123'', 1, BLACK), (''ABC123'', 2, WHITE), (''ABC123'', 2, BLACK)]"
    by (simp add: resumed_db_def)
  from fresh resumed show ?thesis by (rule conjI)
qed

subsection \<open>Failures of the oracle\<close>

lemma parse_empty:
  "parse_chess_response [] =
     \<lparr>move = None, comment = None, commentary = None, my_emotion = None, opponent_emotion = None\<rparr>"
  by code_simp

lemma call_failed_text:
  "oracle_failed p \<Longrightarrow> llm_text (call_claude_cli p prompt sid sp) = PStr []"
  by (cases p) (auto simp: oracle_failed_def call_claude_cli_def split: json_reading.splits)

lemma resolve_no_move:
  assumes "legal_moves R b \<noteq> []"
  shows "resolve_move R b (parse_chess_response []) r =
           Inr (legal_moves R b ! (r mod length (legal_moves R b)), True,
                Some (fallback_notice None))"
  using assms
  by (simp add: parse_empty resolve_move_def validate_and_get_move_def truthy_def
      get_random_legal_move_def fallback_comment_def Let_def)

text \<open>
  Claim C4, as amended. When the oracle process cannot be started, raises, exits with
  a return code other than 0 or prints JSON that is no object, \<open>call_claude_cli\<close>
  returns a response with the empty text, and the turn, in a position with a legal
  move, goes through with a fallback: one of the legal moves is played and recorded
  with \<open>was_fallback\<close>, and the move event is published with the fallback notice as
  its comment. When the process exits with 0 and its output is no JSON, the call
  returns as well, with that output as the text of the response.
\<close>

theorem oracle_failure_ends_in_fallback:
  assumes "oracle_failed (proc inp)" and "legal_moves R (board st) \<noteq> []"
  shows "(\<forall>prompt sid sp. llm_text (call_claude_cli (proc inp) prompt sid sp) = PStr []) \<and>
         (\<forall>out err prompt sid sp.
            call_claude_cli (Exited 0 out NotJson err) prompt sid sp =
              \<lparr>llm_text = PStr out, session_id = sid, error = None\<rparr>) \<and>
         (\<exists>cmd d ev st' m.
            play_turn R st inp = ([Call cmd, Commit d, Publish ev], Inr st') \<and>
            m \<in> set (legal_moves R (board st)) \<and> board st' = push R (board st) m \<and>
            moves d = moves (db st) @ [last (moves d)] \<and>
            was_fallback (last (moves d)) \<and> move_uci (last (moves d)) = uci R m \<and>
            move_comment (last (moves d)) = Some (fallback_notice None) \<and>
            map_of ev ''was_fallback'' = Some (PBool True) \<and>
            map_of ev ''move_uci'' = Some (PStr (uci R m)) \<and>
            map_of ev ''comment'' = Some (PStr (fallback_notice None)))"
proof -
  let ?m = "legal_moves R (board st) ! (pick inp mod length (legal_moves R (board st)))"
  obtain cmd r g1 where a: "ask_oracle R st (proc inp) = (cmd, r, g1)"
    by (cases "ask_oracle R st (proc inp)")
  then have "llm_text r = PStr []"
    using call_failed_text [OF assms(1)] by (auto simp: ask_oracle_def Let_def)
  with a have pt: "play_turn R st inp =
      (case apply_move R st g1 (parse_chess_response []) inp (?m, True, Some (fallback_notice None)) of
         (acts, res) \<Rightarrow> (Call cmd # acts, res))"
    by (simp add: play_turn_def resolve_no_move [OF assms(2)])
  have mem: "?m \<in> set (legal_moves R (board st))" using assms(2) by simp
  have 1: "\<forall>prompt sid sp. llm_text (call_claude_cli (proc inp) prompt sid sp) = PStr []"
    using call_failed_text [OF assms(1)] by simp
  have 2: "\<forall>out err prompt sid sp.
            call_claude_cli (Exited 0 out NotJson err) prompt sid sp =
              \<lparr>llm_text = PStr out, session_id = sid, error = None\<rparr>"
    by (simp add: call_claude_cli_def)
  have 3: "\<exists>cmd d ev st' m.
            play_turn R st inp = ([Call cmd, Commit d, Publish ev], Inr st') \<and>
            m \<in> set (legal_moves R (board st)) \<and> board st' = push R (board st) m \<and>
            moves d = moves (db st) @ [last (moves d)] \<and>
            was_fallback (last (moves d)) \<and> move_uci (last (moves d)) = uci R m \<and>
            move_comment (last (moves d)) = Some (fallback_notice None) \<and>
            map_of ev ''was_fallback'' = Some (PBool True) \<and>
            map_of ev ''move_uci'' = Some (PStr (uci R m)) \<and>
            map_of ev ''comment'' = Some (PStr (fallback_notice None))"
    unfolding pt using mem
    by (simp add: apply_move_result Let_def opt_str_def) blast
  from 1 2 3 show ?thesis by blast
qed


theorem oracle_failure_ends_in_fallback_witness:
  "\<exists>cmd d ev st'.
     play_turn line_rules first_turn (turn_with ProcessNotFound) =
       ([Call cmd, Commit d, Publish ev], Inr st') \<and>
     board st' = 1 \<and> was_fallback (last (moves d)) \<and> move_uci (last (moves d)) = ''f2f3'' \<and>
     map_of ev ''comment'' = Some (PStr (fallback_notice None))"
proof -
  have h1: "oracle_failed (proc (turn_with ProcessNotFound))"
    by (simp add: turn_with_def oracle_failed_def)
  have h2: "legal_moves line_rules (board first_turn) \<noteq> []"
    by (simp add: line_rules_def first_turn_def)
  from oracle_failure_ends_in_fallback [OF h1 h2] obtain cmd d ev st' m where
    pt: "play_turn line_rules first_turn (turn_with ProcessNotFound) =
           ([Call cmd, Commit d, Publish ev], Inr st')"
    and m: "m \<in> set (legal_moves line_rules (board first_turn))"
    and r: "board st' = push line_rules (board first_turn) m"
      "was_fallback (last (moves d))" "move_uci (last (moves d)) = uci line_rules m"
      "map_of ev ''comment'' = Some (PStr (fallback_notice None))"
    by blast
  from m have "m = ''f2f3''" by (simp add: line_rules_def first_turn_def line_moves_def)
  with r have "board st' = 1" "move_uci (last (moves d)) = ''f2f3''"
    by (simp_all add: line_rules_def first_turn_def)
  with pt r show ?thesis by blast
qed

text \<open>
  Claim C4 as stated fails: when the process exits with 0 and prints \<open>MOVE: f3\<close>,
  which is no JSON, the text of the response is that output, not the empty text, and
  the turn plays the move of the output without a fallback.
\<close>

theorem raw_output_is_not_empty_text:
  "llm_text (call_claude_cli (Exited 0 ''MOVE: f3'' NotJson []) ''p'' None None) = PStr ''MOVE: f3'' \<and>
   map (map was_fallback \<circ> moves)
     (commits (fst (run_game line_rules new_db ''ABC123'' one_viewer
        [turn_with (Exited 0 ''MOVE: f3'' NotJson [])]))) = [[], [False]]"
  by code_simp

subsection \<open>Session ids\<close>

lemma apply_move_sid:
  "apply_move R st g1 parsed inp (m, fb, cm) = (acts, Inr st') \<Longrightarrow>
     stored_sid (game st') w = stored_sid g1 w"
  by (auto simp: apply_move_result Let_def stored_sid_def)

lemma ask_oracle_sid:
  assumes "ask_oracle R st p = (cmd, r, g1)"
  shows "stored_sid g1 (\<not> turn R (board st)) = stored_sid (game st) (\<not> turn R (board st))"
    and "stored_sid g1 (turn R (board st)) =
           (if truthy (session_id r) then session_id r
            else stored_sid (game st) (turn R (board st)))"
    and "\<exists>prompt. cmd = claude_command prompt
           (if truthy (stored_sid (game st) (turn R (board st)))
            then stored_sid (game st) (turn R (board st)) else None)
           (if truthy (stored_sid (game st) (turn R (board st))) then None
            else Some (build_system_prompt
                   (color_value (if turn R (board st) then WHITE else BLACK))))"
    and "r = call_claude_cli p
           (build_chess_prompt (color_value (if turn R (board st) then WHITE else BLACK))
              (if turn R (board st) then white_prompt (game st) else black_prompt (game st))
              (board_str R (board st)) (get_legal_moves_san R (board st)))
           (if truthy (stored_sid (game st) (turn R (board st)))
            then stored_sid (game st) (turn R (board st)) else None)
           (if truthy (stored_sid (game st) (turn R (board st))) then None
            else Some (build_system_prompt
                   (color_value (if turn R (board st) then WHITE else BLACK))))"
  using assms by (auto simp: ask_oracle_def Let_def stored_sid_def split: if_splits)

lemma play_turn_call:
  "\<exists>acts'. fst (play_turn R st inp) = Call (fst (ask_oracle R st (proc inp))) # acts'"
  by (auto simp: play_turn_def Let_def split: prod.splits pyval.splits sum.splits)

lemma play_turn_crash:
  assumes "snd (play_turn R st inp) = Inl e"
  shows "commits (fst (play_turn R st inp)) = []"
proof -
  obtain acts res where pt: "play_turn R st inp = (acts, res)" by (cases "play_turn R st inp")
  from pt show ?thesis
  proof (cases rule: play_turn_cases)
    case (crash cmd e')
    with pt show ?thesis by simp
  next
    case (played cmd r g1 parsed m fb cm acts' st')
    with pt assms show ?thesis by simp
  qed
qed

lemma sid_step_same:
  assumes "find_game d code = Some g" "find_game d' code = Some g'" "moves d' = moves d"
    "white_session_id g' = white_session_id g" "black_session_id g' = black_session_id g"
  shows "sid_step code d d'"
  using assms by (simp add: sid_step_def)

lemma sid_step_move:
  assumes "find_game d code = Some g" "find_game d' code = Some g'" "moves d' = moves d @ [mv]"
    "stored_sid g' (color mv \<noteq> WHITE) = stored_sid g (color mv \<noteq> WHITE)"
    "stored_sid g' (color mv = WHITE) = stored_sid g (color mv = WHITE) \<or>
     truthy (stored_sid g' (color mv = WHITE))"
  shows "sid_step code d d'"
  using assms by (simp add: sid_step_def Let_def)

lemma apply_move_row:
  assumes row: "row_loaded code st" and ask: "ask_oracle R st p = (cmd, r, g1)"
    and ap: "apply_move R st g1 parsed inp (m, fb, cm) = (acts, Inr st')"
  shows "row_loaded code st' \<and> commits acts = [db st'] \<and> sid_step code (db st) (db st')"
proof -
  let ?w = "turn R (board st)"
  let ?g = "g1\<lparr>board_fen := fen R (push R (board st) m),
               current_turn := (if ?w then BLACK else WHITE)\<rparr>"
  let ?mv = "\<lparr>move_game_code = game_code g1, move_number = counter st,
               color = (if ?w then WHITE else BLACK),
               move_uci = uci R m, move_san = san R (board st) m, move_comment = cm,
               was_fallback = fb\<rparr>"
  let ?d = "db_commit (db_add (db st) ?mv) ?g"
  from ask_oracle_game [OF ask] row have c: "game_code ?g = code" by (simp add: row_loaded_def)
  have f: "find_game ?d code = Some ?g"
    using find_game_commit [of "db_add (db st) ?mv" ?g] row c by (simp add: row_loaded_def)
  from ap have a: "commits acts = [?d]" and s: "game st' = ?g" "db st' = ?d"
    by (auto simp: apply_move_result Let_def)
  have f0: "find_game (db st) code = Some (game st)" using row by (simp add: row_loaded_def)
  have mv: "moves ?d = moves (db st) @ [?mv]" by simp
  have cw: "(color ?mv = WHITE) = ?w" by simp
  note sid = ask_oracle_sid [OF ask]
  have g: "stored_sid ?g b = stored_sid g1 b" for b by (simp add: stored_sid_def)
  have ncw: "(color ?mv \<noteq> WHITE) = (\<not> ?w)" by simp
  have other: "stored_sid ?g (color ?mv \<noteq> WHITE) = stored_sid (game st) (color ?mv \<noteq> WHITE)"
    unfolding ncw g using sid(1) .
  have own: "stored_sid ?g (color ?mv = WHITE) = stored_sid (game st) (color ?mv = WHITE) \<or>
     truthy (stored_sid ?g (color ?mv = WHITE))"
  proof -
    from g sid(2) have "stored_sid ?g ?w =
        (if truthy (session_id r) then session_id r else stored_sid (game st) ?w)" by simp
    then show ?thesis unfolding cw by (cases "truthy (session_id r)") simp_all
  qed
  from sid_step_move [OF f0 f mv other own] a s f c show ?thesis
    by (simp add: row_loaded_def)
qed

lemma finish_game_row:
  assumes "row_loaded code st" "finish_game R st = (acts, how, st')"
  shows "successively (sid_step code) (db st # commits acts)"
proof -
  obtain res tm where r: "get_game_result R (board st) = (res, tm)"
    by (cases "get_game_result R (board st)")
  let ?g = "(game st)\<lparr>status := COMPLETED, result := Some res\<rparr>"
  have c: "game_code ?g = code" using assms(1) by (simp add: row_loaded_def)
  have f0: "find_game (db st) code = Some (game st)" using assms(1) by (simp add: row_loaded_def)
  have f: "find_game (db_commit (db st) ?g) code = Some ?g"
    using find_game_commit [of "db st" ?g] f0 c by simp
  from assms(2) r have a: "commits acts = [db_commit (db st) ?g]"
    by (auto simp: finish_game_def Let_def GameOverEvent_built)
  from sid_step_same [OF f0 f] a show ?thesis by simp
qed

lemma pause_game_row:
  assumes "row_loaded code st" "pause_game st h = (acts, how, st')"
  shows "successively (sid_step code) (db st # commits acts)"
proof -
  let ?g = "(game st)\<lparr>is_paused := True\<rparr>"
  have c: "game_code ?g = code" using assms(1) by (simp add: row_loaded_def)
  have f0: "find_game (db st) code = Some (game st)" using assms(1) by (simp add: row_loaded_def)
  have f: "find_game (db_commit (db st) ?g) code = Some ?g"
    using find_game_commit [of "db st" ?g] f0 c by simp
  from assms(2) have a: "commits acts = [db_commit (db st) ?g]"
    by (auto simp: pause_game_def Let_def)
  from sid_step_same [OF f0 f] a show ?thesis by simp
qed

lemma game_loop_row:
  "row_loaded code st \<Longrightarrow> game_loop R st inps = (acts, how, st') \<Longrightarrow>
     successively (sid_step code) (db st # commits acts)"
proof (induction inps arbitrary: st acts how st')
  case Nil
  show ?case
  proof (cases "is_game_over R (board st)")
    case True
    with Nil have "finish_game R st = (acts, how, st')" by simp
    from finish_game_row [OF Nil.prems(1) this] show ?thesis .
  next
    case False
    with Nil show ?thesis by simp
  qed
next
  case (Cons inp inps)
  show ?case
  proof (cases "is_game_over R (board st)")
    case True
    with Cons.prems have "finish_game R st = (acts, how, st')" by simp
    from finish_game_row [OF Cons.prems(1) this] show ?thesis .
  next
    case False
    note playing = this
    show ?thesis
    proof (cases "viewers inp = 0")
      case True
      with playing Cons.prems have "pause_game st NoViewers = (acts, how, st')" by simp
      from pause_game_row [OF Cons.prems(1) this] show ?thesis .
    next
      case False
      obtain acts1 res where pt: "play_turn R st inp = (acts1, res)"
        by (cases "play_turn R st inp")
      from pt show ?thesis
      proof (cases rule: play_turn_cases)
        case (crash cmd e)
        with pt playing False Cons.prems(2) have "commits acts = []" by auto
        then show ?thesis by simp
      next
        case (played cmd r g1 parsed m fb cm acts2 st1)
        from apply_move_row [OF Cons.prems(1) played(1) played(2)]
        have row1: "row_loaded code st1" and c2: "commits acts2 = [db st1]"
          and step: "sid_step code (db st) (db st1)" by simp_all
        obtain acts3 how3 st3 where gl: "game_loop R st1 inps = (acts3, how3, st3)"
          by (cases "game_loop R st1 inps") auto
        from pt played playing False Cons.prems(2) gl
        have e: "acts = Call cmd # acts2 @ acts3" by simp
        from Cons.IH [OF row1 gl] step e c2 show ?thesis by simp
      qed
    qed
  qed
qed

lemma run_game_row:
  "successively (sid_step code) (db0 # commits (fst (run_game R db0 code polls inps)))"
proof (cases "find_game db0 code")
  case None
  then show ?thesis by (simp add: run_game_def)
next
  case (Some g)
  let ?g1 = "g\<lparr>status := IN_PROGRESS, is_paused := False\<rparr>"
  let ?d1 = "db_commit db0 ?g1"
  let ?st = "\<lparr>game = ?g1, board = from_fen R (board_fen g),
              counter = int (count_moves ?d1 code) div 2 + 1, db = ?d1\<rparr>"
  have c: "game_code ?g1 = code" using find_game_code [OF Some] by simp
  have f: "find_game ?d1 code = Some ?g1"
    using find_game_commit [of db0 ?g1] Some c by simp
  have row: "row_loaded code ?st" using c f by (simp add: row_loaded_def)
  have first: "sid_step code db0 ?d1" using sid_step_same [OF Some f] by simp
  obtain acts' how' st' where
    rest: "(if poll_loop polls 0 max_wait then game_loop R ?st inps else pause_game ?st TimedOut) =
             (acts', how', st')"
    by (cases "if poll_loop polls 0 max_wait then game_loop R ?st inps else pause_game ?st TimedOut")
      auto
  from Some rest have e: "commits (fst (run_game R db0 code polls inps)) = ?d1 # commits acts'"
    by (simp add: run_game_def Let_def GameStartedEvent_built)
  have "successively (sid_step code) (?d1 # commits acts')"
  proof (cases "poll_loop polls 0 max_wait")
    case True
    with rest have "game_loop R ?st inps = (acts', how', st')" by simp
    from game_loop_row [OF row this] show ?thesis by simp
  next
    case False
    with rest have "pause_game ?st TimedOut = (acts', how', st')" by simp
    from pause_game_row [OF row this] show ?thesis by simp
  qed
  with first e show ?thesis by simp
qed

text \<open>
  Claim C5, as amended. Along the databases that a run of \<open>run_game\<close> commits,
  starting from the database it was given, a commit that adds no move leaves both
  stored session ids of the game as they were, and a commit that adds a move leaves
  the id of the other side as it was and the id of the side that moved as it was or
  not empty. On every turn the oracle is called with the stored session id of the
  side to move when there is one, and with the system prompt otherwise. A turn that
  raises commits nothing. A turn that goes through commits once, the game object it
  leaves being the committed row; it leaves the id of the other side as it was, and
  the id of the side to move is afterwards the session id of the response when that
  is not empty and the old one otherwise: unchanged after a failure of the oracle and
  after a payload without a session id, replaced by any non-empty session id the
  payload carries, and never lost once stored.
\<close>

theorem session_id_follows_oracle:
  "successively (sid_step code) (db0 # commits (fst (run_game R db0 code polls inps))) \<and>
   (let w = turn R (board st); old = stored_sid (game st) w;
        r = fst (snd (ask_oracle R st (proc inp)));
        acts = fst (play_turn R st inp); res = snd (play_turn R st inp)
    in (\<exists>prompt. hd acts = Call (claude_command prompt (if truthy old then old else None)
            (if truthy old then None
             else Some (build_system_prompt (color_value (if w then WHITE else BLACK)))))) \<and>
       (\<forall>e. res = Inl e \<longrightarrow> commits acts = []) \<and>
       (\<forall>st'. res = Inr st' \<longrightarrow>
          commits acts = [db st'] \<and>
          (game_code (game st) = game_code (game st') \<and>
           (find_game (db st) (game_code (game st)) = Some (game st) \<longrightarrow>
              find_game (db st') (game_code (game st)) = Some (game st'))) \<and>
          stored_sid (game st') (\<not> w) = stored_sid (game st) (\<not> w) \<and>
          stored_sid (game st') w = (if truthy (session_id r) then session_id r else old) \<and>
          (truthy old \<longrightarrow> truthy (stored_sid (game st') w)) \<and>
          (oracle_failed (proc inp) \<longrightarrow> stored_sid (game st') w = old) \<and>
          (\<forall>out payload err. proc inp = Exited 0 out (Object payload None) err \<longrightarrow>
             stored_sid (game st') w = old) \<and>
          (\<forall>out payload v err.
             proc inp = Exited 0 out (Object payload (Some (Some v))) err \<and> v \<noteq> [] \<longrightarrow>
             stored_sid (game st') w = Some v)))"
proof -
  let ?w = "turn R (board st)"
  let ?old = "stored_sid (game st) ?w"
  let ?acts = "fst (play_turn R st inp)"
  let ?res = "snd (play_turn R st inp)"
  obtain cmd r g1 where ask: "ask_oracle R st (proc inp) = (cmd, r, g1)"
    by (cases "ask_oracle R st (proc inp)")
  note sid = ask_oracle_sid [OF ask]
  have call: "\<exists>prompt. hd ?acts = Call (claude_command prompt (if truthy ?old then ?old else None)
            (if truthy ?old then None
             else Some (build_system_prompt (color_value (if ?w then WHITE else BLACK)))))"
    using play_turn_call [of R st inp] sid(3) ask by auto
  have crash: "\<forall>e. ?res = Inl e \<longrightarrow> commits ?acts = []"
    using play_turn_crash by blast
  have played: "commits ?acts = [db st'] \<and>
          (game_code (game st) = game_code (game st') \<and>
           (find_game (db st) (game_code (game st)) = Some (game st) \<longrightarrow>
              find_game (db st') (game_code (game st)) = Some (game st'))) \<and>
          stored_sid (game st') (\<not> ?w) = stored_sid (game st) (\<not> ?w) \<and>
          stored_sid (game st') ?w = (if truthy (session_id r) then session_id r else ?old) \<and>
          (truthy ?old \<longrightarrow> truthy (stored_sid (game st') ?w)) \<and>
          (oracle_failed (proc inp) \<longrightarrow> stored_sid (game st') ?w = ?old) \<and>
          (\<forall>out payload err. proc inp = Exited 0 out (Object payload None) err \<longrightarrow>
             stored_sid (game st') ?w = ?old) \<and>
          (\<forall>out payload v err.
             proc inp = Exited 0 out (Object payload (Some (Some v))) err \<and> v \<noteq> [] \<longrightarrow>
             stored_sid (game st') ?w = Some v)"
    if res: "?res = Inr st'" for st'
  proof -
    from res have pt: "play_turn R st inp = (?acts, Inr st')" by (metis prod.collapse)
    from pt show ?thesis
    proof (cases rule: play_turn_cases)
      case (crash cmd' e)
      then show ?thesis by simp
    next
      case (played cmd' r' g1' parsed m fb cm acts' st1)
      from played(1) ask have eq: "cmd' = cmd" "r' = r" "g1' = g1" by simp_all
      from played(4) have st1: "st1 = st'" by simp
      note ap = played(2) [unfolded eq st1]
      from ap played(3) have cs: "commits ?acts = [db st']"
        by (auto simp: apply_move_result Let_def)
      from ap ask_oracle_game [OF ask] have gc: "game_code (game st) = game_code (game st')"
        by (auto simp: apply_move_result Let_def)
      have row: "find_game (db st) (game_code (game st)) = Some (game st) \<longrightarrow>
              find_game (db st') (game_code (game st)) = Some (game st')"
      proof
        assume "find_game (db st) (game_code (game st)) = Some (game st)"
        then have "row_loaded (game_code (game st)) st" by (simp add: row_loaded_def)
        from apply_move_row [OF this ask ap] show
          "find_game (db st') (game_code (game st)) = Some (game st')"
          by (simp add: row_loaded_def)
      qed
      have other: "stored_sid (game st') (\<not> ?w) = stored_sid (game st) (\<not> ?w)"
        using apply_move_sid [OF ap] sid(1) by simp
      have own: "stored_sid (game st') ?w = (if truthy (session_id r) then session_id r else ?old)"
        using apply_move_sid [OF ap] sid(2) by simp
      have keep: "truthy ?old \<longrightarrow> truthy (stored_sid (game st') ?w)"
        unfolding own by simp
      have failed: "oracle_failed (proc inp) \<longrightarrow> stored_sid (game st') ?w = ?old"
        unfolding own sid(4)
        by (cases "proc inp")
          (auto simp: oracle_failed_def call_claude_cli_def truthy_def
            split: json_reading.splits option.splits)
      have none: "\<forall>out payload err. proc inp = Exited 0 out (Object payload None) err \<longrightarrow>
               stored_sid (game st') ?w = ?old"
        unfolding own sid(4) by (auto simp: call_claude_cli_def truthy_def split: option.splits)
      have some: "\<forall>out payload v err.
               proc inp = Exited 0 out (Object payload (Some (Some v))) err \<and> v \<noteq> [] \<longrightarrow>
               stored_sid (game st') ?w = Some v"
        unfolding own sid(4) by (auto simp: call_claude_cli_def truthy_def)
      from cs gc row other own keep failed none some show ?thesis by blast
    qed
  qed
  have r: "fst (snd (ask_oracle R st (proc inp))) = r" using ask by simp
  from played have all_played: "\<forall>st'. ?res = Inr st' \<longrightarrow>
          commits ?acts = [db st'] \<and>
          (game_code (game st) = game_code (game st') \<and>
           (find_game (db st) (game_code (game st)) = Some (game st) \<longrightarrow>
              find_game (db st') (game_code (game st)) = Some (game st'))) \<and>
          stored_sid (game st') (\<not> ?w) = stored_sid (game st) (\<not> ?w) \<and>
          stored_sid (game st') ?w = (if truthy (session_id r) then session_id r else ?old) \<and>
          (truthy ?old \<longrightarrow> truthy (stored_sid (game st') ?w)) \<and>
          (oracle_failed (proc inp) \<longrightarrow> stored_sid (game st') ?w = ?old) \<and>
          (\<forall>out payload err. proc inp = Exited 0 out (Object payload None) err \<longrightarrow>
             stored_sid (game st') ?w = ?old) \<and>
          (\<forall>out payload v err.
             proc inp = Exited 0 out (Object payload (Some (Some v))) err \<and> v \<noteq> [] \<longrightarrow>
             stored_sid (game st') ?w = Some v)"
    by blast
  show ?thesis unfolding Let_def r
    using run_game_row [of code db0 R polls inps] call crash all_played by (intro conjI)
qed


theorem session_id_follows_oracle_witness:
  "(\<exists>acts st'.
      play_turn line_rules first_turn (turn_with (answers ''MOVE: f3'' ''w1'')) = (acts, Inr st') \<and>
      white_session_id (game st') = Some ''w1'' \<and> black_session_id (game st') = None \<and>
      find_game (db st') ''ABC123'' = Some (game st')) \<and>
   commits (fst (play_turn line_rules first_turn (turn_with (answers ''MOVE: Qh5'' ''w1'')))) = []"
proof -
  let ?inp = "turn_with (answers ''MOVE: f3'' ''w1'')"
  let ?bad = "turn_with (answers ''MOVE: Qh5'' ''w1'')"
  have "\<not> isl (snd (play_turn line_rules first_turn ?inp))" by code_simp
  then obtain st' where res: "snd (play_turn line_rules first_turn ?inp) = Inr st'"
    by (cases "snd (play_turn line_rules first_turn ?inp)") simp_all
  have w: "turn line_rules (board first_turn)" by (simp add: line_rules_def first_turn_def)
  have p: "proc ?inp = Exited 0 [] (Object (Some (PStr ''MOVE: f3'')) (Some (Some ''w1''))) []"
    by (simp add: turn_with_def answers_def)
  have gc: "game_code (game first_turn) = ''ABC123''"
    by (simp add: first_turn_def new_game_def)
  have row: "find_game (db first_turn) ''ABC123'' = Some (game first_turn)"
    by (simp add: first_turn_def new_db_def new_game_def find_game_def)
  from session_id_follows_oracle [of "''ABC123''" new_db line_rules one_viewer "[]" first_turn ?inp] res w p gc row
  have "stored_sid (game st') False = stored_sid (game first_turn) False \<and>
        stored_sid (game st') True = Some ''w1'' \<and>
        find_game (db st') ''ABC123'' = Some (game st')"
    by (auto simp: Let_def)
  then have "white_session_id (game st') = Some ''w1''" "black_session_id (game st') = None"
    "find_game (db st') ''ABC123'' = Some (game st')"
    by (simp_all add: stored_sid_def first_turn_def new_game_def)
  moreover from res have "play_turn line_rules first_turn ?inp =
      (fst (play_turn line_rules first_turn ?inp), Inr st')"
    by (metis prod.collapse)
  ultimately have 1: "\<exists>acts st'.
      play_turn line_rules first_turn ?inp = (acts, Inr st') \<and>
      white_session_id (game st') = Some ''w1'' \<and> black_session_id (game st') = None \<and>
      find_game (db st') ''ABC123'' = Some (game st')"
    by blast
  have "isl (snd (play_turn line_rules first_turn ?bad))" by code_simp
  then obtain e where bad: "snd (play_turn line_rules first_turn ?bad) = Inl e"
    by (cases "snd (play_turn line_rules first_turn ?bad)") simp_all
  from session_id_follows_oracle [of "''ABC123''" new_db line_rules one_viewer "[]" first_turn ?bad] bad
  have 2: "commits (fst (play_turn line_rules first_turn ?bad)) = []"
    by (simp add: Let_def)
  from 1 2 show ?thesis by (rule conjI)
qed

text \<open>
  Claim C5 as stated fails: when the oracle answers white's first call under the
  session id \<open>w1\<close> and white's second call under \<open>w2\<close>, the session id stored for
  white is \<open>w1\<close> after the first move and \<open>w2\<close> after the third.
\<close>

theorem session_id_replaced:
  "map white_sid_in
     (commits (fst (run_game line_rules new_db ''ABC123'' one_viewer
        [turn_with (answers ''MOVE: f3'' ''w1''), turn_with (answers ''MOVE: e5'' ''b1''),
         turn_with (answers ''MOVE: g4'' ''w2'')]))) =
     [Some None, Some (Some ''w1''), Some (Some ''w1''), Some (Some ''w2'')]"
  by code_simp

subsection \<open>Moves that are not legal, and the fields of the move event\<close>

lemma validate_and_get_move_illegal:
  "truthy move_str \<Longrightarrow> parse_san R b (fmt move_str) = Inl IllegalMoveError \<Longrightarrow>
     validate_and_get_move R b move_str = Inl IllegalMoveError"
  by (simp add: validate_and_get_move_def)

text \<open>
  Claim C1. In the first position the move \<open>Qh5\<close> is well-formed and not legal, so
  \<open>parse_san\<close> raises \<open>IllegalMoveError\<close>. \<open>validate_and_get_move\<close> does not catch
  it: the exception leaves the function and \<open>run_game\<close>, and after the start event
  nothing is published: no fallback move is played.
\<close>

theorem illegal_move_leaves_run_game:
  "parse_san line_rules 0 ''Qh5'' = Inl IllegalMoveError \<and>
   validate_and_get_move line_rules 0 (Some ''Qh5'') = Inl IllegalMoveError \<and>
   fst (snd (run_game line_rules new_db ''ABC123'' one_viewer
               [turn_with (answers ''MOVE: Qh5'' ''w1'')])) =
     Crashed (ChessError IllegalMoveError) \<and>
   published (fst (run_game line_rules new_db ''ABC123'' one_viewer
               [turn_with (answers ''MOVE: Qh5'' ''w1'')])) =
     [[(''type'', PStr ''game_started'')]]"
  by code_simp

lemma MoveEvent_fields_only:
  "MoveEvent kwargs = Some ev \<Longrightarrow>
     map fst ev = [''type'', ''move_number'', ''color'', ''move_uci'', ''move_san'', ''comment'',
                   ''was_fallback'', ''board_fen'', ''board_ascii'']"
  by (auto simp: MoveEvent_def MoveEvent_fields_def split: option.splits)

text \<open>
  Claim C2. The oracle answers with all five fields and the audio hook returns a
  payload; the move event that \<open>run_game\<close> publishes has the fields that
  \<open>schemas.MoveEvent\<close> declares and no others: commentary, audio payload and the two
  emotions, which \<open>run_game\<close> passes to the constructor, are not in it.
\<close>

theorem move_event_without_commentary:
  "parse_chess_response full_answer =
     \<lparr>move = Some ''f3'', comment = Some ''I strike!'', commentary = Some ''Wow.'',
      my_emotion = Some ''predator'', opponent_emotion = Some ''stone_wall''\<rparr> \<and>
   map (map fst)
     (published (fst (run_game line_rules new_db ''ABC123'' one_viewer
        [\<lparr>viewers = 1, proc = answers full_answer ''w1'', pick = 0, audio = Some ''QUJD''\<rparr>]))) =
     [[''type''],
      [''type'', ''move_number'', ''color'', ''move_uci'', ''move_san'', ''comment'',
       ''was_fallback'', ''board_fen'', ''board_ascii'']]"
  by code_simp

end
